theory Spec2Isabelle
  imports Main "HOL-Library.Sublist"
begin

section \<open>String helpers of the reporter\<close>

text \<open>
  Strings are byte lists. The regular expressions of the reporter only distinguish the
  ASCII letters and digits from everything else, and lower-casing is applied after every
  other character has been replaced, so the byte view and the UTF-16 view agree.
\<close>

definition is_alnum :: "char \<Rightarrow> bool" where
  "is_alnum c \<longleftrightarrow>
     c \<in> set ''abcdefghijklmnopqrstuvwxyzABCDEFGHIJKLMNOPQRSTUVWXYZ0123456789''"

text \<open>\<^verbatim>\<open>toLowerCase()\<close> on one ASCII character.\<close>

definition lower_char :: "char \<Rightarrow> char" where
  "lower_char c =
     (case map_of (zip ''ABCDEFGHIJKLMNOPQRSTUVWXYZ'' ''abcdefghijklmnopqrstuvwxyz'') c of
        None \<Rightarrow> c
      | Some d \<Rightarrow> d)"

definition toLowerCase :: "string \<Rightarrow> string" where
  "toLowerCase s = map lower_char s"

text \<open>\<^verbatim>\<open>.replace(/[^a-z0-9]+/gi, '-')\<close>: every maximal run of characters that are not
  ASCII letters or digits becomes one hyphen.\<close>

function collapse_non_alnum :: "string \<Rightarrow> string" where
  "collapse_non_alnum [] = []"
| "collapse_non_alnum (c # cs) =
     (if is_alnum c then c # collapse_non_alnum cs
      else CHR ''-'' # collapse_non_alnum (dropWhile (\<lambda>d. \<not> is_alnum d) cs))"
  by pat_completeness auto
termination
  by (relation "measure length") (auto simp: le_imp_less_Suc length_dropWhile_le)

text \<open>\<^verbatim>\<open>.replace(/https?:\/\//, '')\<close>: no \<^verbatim>\<open>g\<close> flag and no anchor, so the leftmost
  occurrence of \<^verbatim>\<open>http://\<close> or \<^verbatim>\<open>https://\<close> is removed, wherever it stands.\<close>

fun strip_protocol :: "string \<Rightarrow> string" where
  "strip_protocol [] = []"
| "strip_protocol (c # cs) =
     (if prefix ''https://'' (c # cs) then drop 8 (c # cs)
      else if prefix ''http://'' (c # cs) then drop 7 (c # cs)
      else c # strip_protocol cs)"

text \<open>\<^verbatim>\<open>.replace(/^-+|-+$/g, '')\<close>: the leading and the trailing run of hyphens go.\<close>

definition trim_hyphens :: "string \<Rightarrow> string" where
  "trim_hyphens s =
     rev (dropWhile (\<lambda>c. c = CHR ''-'') (rev (dropWhile (\<lambda>c. c = CHR ''-'') s)))"

text \<open>The page-key chain of \<^verbatim>\<open>processTestResult\<close>, in the order of the source.\<close>

definition sanitizeKey :: "string \<Rightarrow> string" where
  "sanitizeKey pageKey = toLowerCase (trim_hyphens (collapse_non_alnum (strip_protocol pageKey)))"

text \<open>\<^verbatim>\<open>test.title.replace(/[^a-z0-9]+/gi, '-').toLowerCase()\<close>\<close>

definition sanitizeTitle :: "string \<Rightarrow> string" where
  "sanitizeTitle title = toLowerCase (collapse_non_alnum title)"

text \<open>Decimal rendering of a number inside a template literal.\<close>

definition digit_char :: "nat \<Rightarrow> char" where
  "digit_char d = ''0123456789'' ! (d mod 10)"

fun show_nat :: "nat \<Rightarrow> string" where
  "show_nat n = (if n < 10 then [digit_char n] else show_nat (n div 10) @ [digit_char (n mod 10)])"

declare show_nat.simps [simp del]

text \<open>\<^verbatim>\<open>x || d\<close> on an optional string: absent and empty are both falsy.\<close>

definition or_str :: "string option \<Rightarrow> string \<Rightarrow> string" where
  "or_str x d = (case x of None \<Rightarrow> d | Some s \<Rightarrow> if s = [] then d else s)"

definition truthy :: "string option \<Rightarrow> bool" where
  "truthy x = (case x of None \<Rightarrow> False | Some s \<Rightarrow> s \<noteq> [])"

text \<open>\<^verbatim>\<open>err.total || 0\<close>: an absent count reads as zero.\<close>

definition or0 :: "int option \<Rightarrow> int" where
  "or0 x = (case x of None \<Rightarrow> 0 | Some n \<Rightarrow> n)"


section \<open>Data model (models/index.ts and the test driver's descriptors)\<close>

record target =
  t_element :: string
  t_snippet :: string
  t_html :: string
  t_screenshot :: string
  t_steps :: "string list option"
  t_stepsJson :: string
  t_screenshotBase64 :: string

record a11yError =
  e_id :: string
  e_description :: string
  e_wcagRule :: string
  e_severity :: string
  e_help :: string
  e_helpUrl :: string
  e_guideline :: string
  e_total :: "int option"
  e_target :: "target list option"

record reportData =
  rd_pageKey :: "string option"
  rd_video :: "string option"
  rd_errors :: "a11yError list option"
  rd_criticalColor :: "string option"
  rd_seriousColor :: "string option"
  rd_moderateColor :: "string option"
  rd_minorColor :: "string option"
  rd_adoOrganization :: "string option"
  rd_adoProject :: "string option"

datatype status = passed | failed | skipped | timedOut | interrupted

record annotation =
  an_type :: string
  an_description :: "string option"

record attachment =
  att_name :: string
  att_path :: "string option"
  att_body :: "string option"

record testError =
  err_message :: "string option"
  err_stack :: "string option"

datatype testStep = TestStep (s_category: string) (s_title: string) (s_steps: "testStep list")

record testResult =
  r_status :: status
  r_duration :: nat
  r_attachments :: "attachment list"
  r_errors :: "testError list"
  r_steps :: "testStep list"

record testCase =
  tc_title :: string
  tc_file :: string
  tc_tags :: "string list"
  tc_annotations :: "annotation list"
  tc_project :: "string option"
  tc_results :: "testResult list"

text \<open>The reserved annotation types that are not functional steps.\<close>

definition skipTypes :: "string list" where
  "skipTypes = [''Pre Condition'', ''Post Condition'', ''Description'', ''A11y'']"

section \<open>The scan aggregator (scanA11y)\<close>

text \<open>The analyzer's result: one violation per rule, each with its own node list; a node
  has one or more target selectors.\<close>

record axe_node =
  n_html :: "string option"
  n_target :: "string list"

record violation =
  v_id :: string
  v_impact :: "string option"
  v_description :: string
  v_help :: string
  v_helpUrl :: string
  v_tags :: "string list"
  v_nodes :: "axe_node list"

text \<open>The page and the overlay are outside the program: what the scan reads from them is
  a parameter (\<^verbatim>\<open>locator.isVisible()\<close>, the captured screenshot as base64 text and
  \<^verbatim>\<open>JSON.stringify\<close> of a step list).\<close>

record scan_env =
  isVisible :: "string \<Rightarrow> bool"
  captureBase64 :: "string \<Rightarrow> string"
  stringifySteps :: "string list option \<Rightarrow> string"

definition contextSteps :: "annotation list \<Rightarrow> string list" where
  "contextSteps anns =
     map (\<lambda>a. or_str (an_description a) [])
       (filter (\<lambda>a. an_type a \<notin> set skipTypes) anns)"

text \<open>The inner loop over the selectors of one node: the pair carried along is
  \<^verbatim>\<open>errorIdx\<close> and \<^verbatim>\<open>targets\<close>.\<close>

fun scanSelectors ::
  "scan_env \<Rightarrow> annotation list \<Rightarrow> violation \<Rightarrow> axe_node \<Rightarrow> string list
     \<Rightarrow> nat \<times> target list \<Rightarrow> nat \<times> target list" where
  "scanSelectors env anns v node [] acc = acc"
| "scanSelectors env anns v node (selector # rest) (errorIdx, targets) =
     (if isVisible env selector then
        (let screenshotName = ''a11y-'' @ v_id v @ ''-'' @ show_nat errorIdx @ ''.png'';
             steps = contextSteps anns
         in scanSelectors env anns v node rest
              (Suc errorIdx,
               targets @ [\<lparr>t_element = selector, t_snippet = selector,
                           t_html = or_str (n_html node) [],
                           t_screenshot = screenshotName,
                           t_steps = Some steps,
                           t_stepsJson = stringifySteps env (Some steps),
                           t_screenshotBase64 = captureBase64 env screenshotName\<rparr>]))
      else scanSelectors env anns v node rest (errorIdx, targets))"

fun scanNodes ::
  "scan_env \<Rightarrow> annotation list \<Rightarrow> violation \<Rightarrow> axe_node list
     \<Rightarrow> nat \<times> target list \<Rightarrow> nat \<times> target list" where
  "scanNodes env anns v [] acc = acc"
| "scanNodes env anns v (node # rest) acc =
     scanNodes env anns v rest (scanSelectors env anns v node (n_target node) acc)"

definition scanTargets :: "scan_env \<Rightarrow> annotation list \<Rightarrow> violation \<Rightarrow> target list" where
  "scanTargets env anns v = snd (scanNodes env anns v (v_nodes v) (0, []))"

text \<open>\<^verbatim>\<open>violation.tags[1]\<close>, undefined when the list is too short.\<close>

definition second_tag :: "string list \<Rightarrow> string option" where
  "second_tag tags = (case tags of _ # t # _ \<Rightarrow> Some t | _ \<Rightarrow> None)"

text \<open>One record of \<^verbatim>\<open>errors.push({...})\<close>;
  \<^verbatim>\<open>total: targets.length || violation.nodes.length\<close>.\<close>

definition buildError :: "scan_env \<Rightarrow> annotation list \<Rightarrow> violation \<Rightarrow> a11yError" where
  "buildError env anns v =
     (let targets = scanTargets env anns v
      in \<lparr>e_id = v_id v,
          e_description = v_description v,
          e_wcagRule = or_str (find (prefix ''wcag'') (v_tags v))
                         (or_str (second_tag (v_tags v)) ''N/A''),
          e_severity = or_str (v_impact v) ''unknown'',
          e_help = v_help v,
          e_helpUrl = v_helpUrl v,
          e_guideline = or_str (second_tag (v_tags v)) ''N/A'',
          e_total = Some (if length targets \<noteq> 0 then int (length targets)
                          else int (length (v_nodes v))),
          e_target = Some targets\<rparr>)"

definition scanA11y :: "scan_env \<Rightarrow> annotation list \<Rightarrow> string \<Rightarrow> violation list \<Rightarrow> reportData" where
  "scanA11y env anns url violations =
     \<lparr>rd_pageKey = Some url,
      rd_video = Some ''a11y-scan-video.webm'',
      rd_errors = Some (map (buildError env anns) violations),
      rd_criticalColor = Some ''critical'',
      rd_seriousColor = Some ''serious'',
      rd_moderateColor = Some ''moderate'',
      rd_minorColor = Some ''minor'',
      rd_adoOrganization = Some [],
      rd_adoProject = Some []\<rparr>"

text \<open>All target selectors of a violation, node by node, in the order of the scan.\<close>

definition all_selectors :: "violation \<Rightarrow> string list" where
  "all_selectors v = concat (map n_target (v_nodes v))"

section \<open>The step merge of the legacy reporter\<close>







section \<open>Asset relocation: the test video (A11yReportAssets.copyTestVideo)\<close>

text \<open>What \<^verbatim>\<open>fs.existsSync\<close> and \<^verbatim>\<open>fs.statSync\<close> see of a path: nothing, a file
  whose stat fails, or a file of some size. The file system changes while the reporter
  sleeps, so it is a function of the number of 200 ms sleeps done so far.\<close>

datatype fstat = Absent | StatFails | Size nat

type_synonym filesys = "nat \<Rightarrow> string \<Rightarrow> fstat"

text \<open>The retry loop for one attachment: \<^verbatim>\<open>while (attempts < 10)\<close>, one sleep of 200 ms
  after each failed look. Returns \<^verbatim>\<open>isReady\<close> and the clock.\<close>

function waitReady :: "filesys \<Rightarrow> string \<Rightarrow> nat \<Rightarrow> nat \<Rightarrow> bool \<times> nat" where
  "waitReady fs p clock attempts =
     (if attempts < 10 then
        (case fs clock p of
           Size n \<Rightarrow> if n > 0 then (True, clock) else waitReady fs p (Suc clock) (Suc attempts)
         | _ \<Rightarrow> waitReady fs p (Suc clock) (Suc attempts))
      else (False, clock))"
  by pat_completeness auto
termination
  by (relation "measure (\<lambda>(fs, p, clock, attempts). 10 - attempts)") auto

text \<open>The loop over the video attachments: the triple carried along is \<^verbatim>\<open>bestVideo\<close>,
  \<^verbatim>\<open>maxSize\<close> and the clock.\<close>

fun selectVideo ::
  "filesys \<Rightarrow> attachment list \<Rightarrow> string option \<times> int \<times> nat \<Rightarrow> string option \<times> int \<times> nat" where
  "selectVideo fs [] acc = acc"
| "selectVideo fs (a # rest) (bestVideo, maxSize, clock) =
     (case att_path a of
        None \<Rightarrow> selectVideo fs rest (bestVideo, maxSize, clock)
      | Some p \<Rightarrow>
          if p = [] then selectVideo fs rest (bestVideo, maxSize, clock)
          else
            (case waitReady fs p clock 0 of
               (isReady, clock') \<Rightarrow>
                 if isReady then
                   (case fs clock' p of
                      Size n \<Rightarrow>
                        if int n > maxSize then selectVideo fs rest (Some p, int n, clock')
                        else selectVideo fs rest (bestVideo, maxSize, clock')
                    | _ \<Rightarrow> selectVideo fs rest (bestVideo, maxSize, clock'))
                 else selectVideo fs rest (bestVideo, maxSize, clock')))"

definition videoAttachments :: "testResult \<Rightarrow> attachment list" where
  "videoAttachments result = filter (\<lambda>a. att_name a = ''video'') (r_attachments result)"

definition bestVideo :: "filesys \<Rightarrow> testResult \<Rightarrow> string option \<times> int \<times> nat" where
  "bestVideo fs result = selectVideo fs (videoAttachments result) (None, - 1, 0)"

text \<open>\<^verbatim>\<open>copyToFolder\<close>: empty when the source is missing,
  \<^verbatim>\<open>fileName || path.basename(srcPath)\<close> when the copy worked, an exception (\<open>None\<close>)
  when \<^verbatim>\<open>mkdirSync\<close> or \<^verbatim>\<open>copyFileSync\<close> throws. \<^verbatim>\<open>path.basename\<close>,
  \<^verbatim>\<open>fs.existsSync\<close> and the success of the copy are parameters.\<close>

definition copyToFolder ::
  "(string \<Rightarrow> string) \<Rightarrow> (string \<Rightarrow> bool) \<Rightarrow> (string \<Rightarrow> bool) \<Rightarrow> string \<Rightarrow> string option
     \<Rightarrow> string option" where
  "copyToFolder basename copyOk existsSync srcPath fileName =
     (if srcPath = [] \<or> \<not> existsSync srcPath then Some []
      else if copyOk srcPath then Some (or_str fileName (basename srcPath))
      else None)"

text \<open>\<^verbatim>\<open>copyTestVideo\<close>: the copy of the best video is made when the loop is over; an
  exception of the copy is caught and the base name returned.\<close>

definition copyTestVideo ::
  "(string \<Rightarrow> string) \<Rightarrow> (string \<Rightarrow> bool) \<Rightarrow> filesys \<Rightarrow> testResult \<Rightarrow> string" where
  "copyTestVideo basename copyOk fs result =
     (case bestVideo fs result of
        (None, _, _) \<Rightarrow> []
      | (Some p, _, clock) \<Rightarrow>
          (case copyToFolder basename copyOk (\<lambda>q. fs clock q \<noteq> Absent) p None of
             Some name \<Rightarrow> name
           | None \<Rightarrow> basename p))"


section \<open>The collaborators of the reporter\<close>

text \<open>What \<^verbatim>\<open>JSON.parse\<close> does with a text: it throws (the exception's text), it returns
  an object that the reporter can use as a \<^verbatim>\<open>ReportData\<close>, or it returns another value
  (\<^verbatim>\<open>null\<close>, a number, a string, a boolean, an object with a field of another type than
  the reporter goes on to use), on which the statements after the \<^verbatim>\<open>try\<close> block throw a
  \<^verbatim>\<open>TypeError\<close>: reading \<^verbatim>\<open>reportData.pageKey\<close> of \<^verbatim>\<open>null\<close>, assigning
  \<^verbatim>\<open>reportData.criticalColor\<close> on a primitive in the strict code of a class body, calling
  \<^verbatim>\<open>pageKey.replace\<close> or \<^verbatim>\<open>errors.reduce\<close> on a value without that method.\<close>

datatype parsed = ParseThrows string | ParsedOther | ParsedObject reportData

datatype file_read = NoFile | ReadError string | FileContent string

text \<open>The collaborators: \<^verbatim>\<open>JSON.parse\<close>, reading an attachment file, the renderer (whether
  template and output file render without an exception), \<^verbatim>\<open>ansiToHtml\<close>,
  \<^verbatim>\<open>path.relative\<close>, \<^verbatim>\<open>path.basename\<close>, whether \<^verbatim>\<open>copyFileSync\<close> of a source and
  \<^verbatim>\<open>writeFileSync\<close> of a file name succeed (with the \<^verbatim>\<open>mkdirSync\<close> before them),
  \<^verbatim>\<open>fs.existsSync\<close> when the attachments are copied, \<^verbatim>\<open>Date.now()\<close> at the
  screenshot of a given position, the file system seen by the video copy, and
  \<^verbatim>\<open>formatDuration\<close>.\<close>

record env =
  parseJSON :: "string \<Rightarrow> parsed"
  readPath :: "string \<Rightarrow> file_read"
  renderOk :: "string \<Rightarrow> string \<Rightarrow> bool"
  ansiToHtml :: "string \<Rightarrow> string"
  relativePath :: "string \<Rightarrow> string \<Rightarrow> string"
  baseName :: "string \<Rightarrow> string"
  copyOk :: "string \<Rightarrow> bool"
  writeOk :: "string \<Rightarrow> bool"
  pathExists :: "string \<Rightarrow> bool"
  dateNow :: "nat \<Rightarrow> nat"
  videoFs :: filesys
  formatDuration :: "nat \<Rightarrow> string"


section \<open>Asset relocation: screenshots and other attachments\<close>

text \<open>\<^verbatim>\<open>writeBuffer\<close>: the file name, or an exception (\<open>None\<close>) when \<^verbatim>\<open>mkdirSync\<close>
  or \<^verbatim>\<open>writeFileSync\<close> throws.\<close>

definition writeBuffer :: "(string \<Rightarrow> bool) \<Rightarrow> string \<Rightarrow> string option" where
  "writeBuffer ok fileName = (if ok fileName then Some fileName else None)"

text \<open>\<^verbatim>\<open>Array.prototype.map\<close> with a callback that may throw: the first exception ends
  the whole expression.\<close>

fun mapThrowing :: "('a \<Rightarrow> 'b option) \<Rightarrow> 'a list \<Rightarrow> 'b list option" where
  "mapThrowing f [] = Some []"
| "mapThrowing f (x # xs) =
     (case f x of
        None \<Rightarrow> None
      | Some y \<Rightarrow> (case mapThrowing f xs of None \<Rightarrow> None | Some ys \<Rightarrow> Some (y # ys)))"

text \<open>\<^verbatim>\<open>copyScreenshots\<close>: a screenshot with a file is copied under its base name, one
  with a body only is written as \<^verbatim>\<open>screenshot-${Date.now()}.png\<close>; empty names are
  dropped. Nothing catches an exception of the copy or of the write.\<close>

definition copyScreenshots :: "env \<Rightarrow> testResult \<Rightarrow> string list option" where
  "copyScreenshots e result =
     map_option (filter (\<lambda>p. p \<noteq> []))
       (mapThrowing
          (\<lambda>(i, a).
             if truthy (att_path a)
             then copyToFolder (baseName e) (copyOk e) (pathExists e) (or_str (att_path a) []) None
             else if att_body a \<noteq> None
             then writeBuffer (writeOk e) (''screenshot-'' @ show_nat (dateNow e i) @ ''.png'')
             else Some [])
          (enumerate 0 (filter (\<lambda>a. att_name a = ''screenshot'') (r_attachments result))))"

text \<open>The callback of \<^verbatim>\<open>copyPngAttachments\<close> and \<^verbatim>\<open>copyAllOtherAttachments\<close>: the
  attachment is copied or written under its own name; \<^verbatim>\<open>{ path: name, name: a.name }\<close>
  when a name came back, \<^verbatim>\<open>null\<close> (filtered out afterwards) otherwise.\<close>

definition copyNamed :: "env \<Rightarrow> attachment \<Rightarrow> (string \<times> string) list option" where
  "copyNamed e a =
     map_option (\<lambda>name. if name = [] then [] else [(name, att_name a)])
       (if truthy (att_path a)
        then copyToFolder (baseName e) (copyOk e) (pathExists e) (or_str (att_path a) [])
               (Some (att_name a))
        else if att_body a \<noteq> None then writeBuffer (writeOk e) (att_name a)
        else Some [])"

definition copyPngAttachments :: "env \<Rightarrow> testResult \<Rightarrow> (string \<times> string) list option" where
  "copyPngAttachments e result =
     map_option concat
       (mapThrowing (copyNamed e)
          (filter (\<lambda>a. suffix ''.png'' (att_name a) \<and> att_name a \<noteq> ''screenshot'')
             (r_attachments result)))"

definition copyAllOtherAttachments :: "env \<Rightarrow> testResult \<Rightarrow> (string \<times> string) list option" where
  "copyAllOtherAttachments e result =
     map_option concat
       (mapThrowing (copyNamed e)
          (filter (\<lambda>a. att_name a \<notin> set [''screenshot'', ''video'', ''A11y'']
                       \<and> \<not> suffix ''.png'' (att_name a))
             (r_attachments result)))"


section \<open>The reporter (SnapAllyReporter)\<close>

record options =
  o_critical :: "string option"
  o_serious :: "string option"
  o_moderate :: "string option"
  o_minor :: "string option"
  o_ado :: "(string option \<times> string option) option"

record wcagEntry =
  w_count :: int
  w_severity :: string
  w_helpUrl :: string
  w_description :: string

record testResults =
  tr_num :: nat
  tr_folderName :: string
  tr_executionReportPath :: string
  tr_title :: string
  tr_fileName :: string
  tr_timeDuration :: nat
  tr_duration :: string
  tr_description :: string
  tr_status :: status
  tr_browser :: string
  tr_tags :: "string list"
  tr_preConditions :: "string list"
  tr_steps :: "string list"
  tr_postConditions :: "string list"
  tr_statusIcon :: string
  tr_videoPath :: string
  tr_screenshotPaths :: "string list"
  tr_attachments :: "(string \<times> string) list"
  tr_errors :: "string list"
  tr_a11yReportPath :: "string option"
  tr_a11yErrorCount :: int
  tr_a11yErrors :: "a11yError list"

text \<open>\<^verbatim>\<open>TestSummary\<close>, used for the run and, nested under \<^verbatim>\<open>browserSummaries\<close>, for each
  browser. The nested map is a field of the reporter state below.\<close>

record testSummary =
  ts_duration :: string
  ts_status :: string
  ts_statusIcon :: string
  ts_total :: nat
  ts_totalFailed :: nat
  ts_totalFlaky :: nat
  ts_totalPassed :: nat
  ts_totalSkipped :: nat
  ts_groupedResults :: "string \<rightharpoonup> testResults list"
  ts_wcagErrors :: "string \<rightharpoonup> wcagEntry"
  ts_totalA11yErrorCount :: int

text \<open>A file written by \<^verbatim>\<open>renderer.render\<close>: the output path and the data rendered.\<close>

datatype written =
    ScanReport string reportData
  | ExecutionReport string testResults
  | SummaryReport string

fun written_path :: "written \<Rightarrow> string" where
  "written_path (ScanReport f _) = f"
| "written_path (ExecutionReport f _) = f"
| "written_path (SummaryReport f) = f"

record reporter =
  testIndex :: nat
  outputFolder :: string
  projectRoot :: string
  opts :: options
  executionSummary :: testSummary
  browserSummaries :: "string \<rightharpoonup> testSummary"
  files :: "written list"

text \<open>The exceptions that reject the task of a test: a render that fails, a
  \<^verbatim>\<open>TypeError\<close>, an exception of \<^verbatim>\<open>copyFileSync\<close>, \<^verbatim>\<open>writeFileSync\<close> or
  \<^verbatim>\<open>mkdirSync\<close>.\<close>

datatype error = RenderError string | TypeError | FsError

text \<open>The summaries are plain objects (\<^verbatim>\<open>groupedResults: {}\<close>, \<^verbatim>\<open>wcagErrors: {}\<close>,
  \<^verbatim>\<open>browserSummaries: {}\<close>) used as dictionaries: a map holds their own properties,
  and \<^verbatim>\<open>obj[key]\<close> of a key that is not an own property finds the property that
  \<^verbatim>\<open>Object.prototype\<close> has under these names, a function or (for \<^verbatim>\<open>__proto__\<close>) the
  prototype itself, all truthy.\<close>

definition inheritedKeys :: "string list" where
  "inheritedKeys =
     [''constructor'', ''__defineGetter__'', ''__defineSetter__'', ''hasOwnProperty'',
      ''__lookupGetter__'', ''__lookupSetter__'', ''isPrototypeOf'', ''propertyIsEnumerable'',
      ''toString'', ''valueOf'', ''__proto__'', ''toLocaleString'']"

definition emptySummary :: "string \<Rightarrow> testSummary" where
  "emptySummary d =
     \<lparr>ts_duration = d, ts_status = [], ts_statusIcon = [],
      ts_total = 0, ts_totalFailed = 0, ts_totalFlaky = 0, ts_totalPassed = 0,
      ts_totalSkipped = 0, ts_groupedResults = Map.empty, ts_wcagErrors = Map.empty,
      ts_totalA11yErrorCount = 0\<rparr>"

definition newReporter :: "options \<Rightarrow> string \<Rightarrow> reporter" where
  "newReporter os folder =
     \<lparr>testIndex = 0, outputFolder = folder, projectRoot = ''tests'', opts = os,
      executionSummary = emptySummary [], browserSummaries = Map.empty, files = []\<rparr>"

definition onBegin :: "string option \<Rightarrow> reporter \<Rightarrow> reporter" where
  "onBegin rootDir st = st\<lparr>projectRoot := or_str rootDir ''tests''\<rparr>"

definition pathJoin :: "string \<Rightarrow> string \<Rightarrow> string" where
  "pathJoin a b = a @ ''/'' @ b"

definition render :: "env \<Rightarrow> string \<Rightarrow> string \<Rightarrow> written \<Rightarrow> reporter \<Rightarrow> error + reporter" where
  "render e template outFile w st =
     (if renderOk e template outFile then Inr (st\<lparr>files := files st @ [w]\<rparr>)
      else Inl (RenderError outFile))"

text \<open>The enum \<^verbatim>\<open>TestStatusIcon\<close> as the lookup table it compiles to, and
  \<^verbatim>\<open>TestStatusIcon[status] || 'help'\<close>.\<close>

definition TestStatusIcon :: "string \<rightharpoonup> string" where
  "TestStatusIcon =
     map_of [(''passed'', ''check_circle''), (''failed'', ''cancel''),
             (''skipped'', ''remove_circle''), (''timedOut'', ''alarm_off''),
             (''interrupted'', ''block'')]"

definition status_name :: "status \<Rightarrow> string" where
  "status_name s =
     (case s of passed \<Rightarrow> ''passed'' | failed \<Rightarrow> ''failed'' | skipped \<Rightarrow> ''skipped''
      | timedOut \<Rightarrow> ''timedOut'' | interrupted \<Rightarrow> ''interrupted'')"

definition statusIconOf :: "string \<Rightarrow> string" where
  "statusIconOf s = or_str (TestStatusIcon s) ''help''"

subsection \<open>Accessibility data sources\<close>

datatype source = AttachmentSource attachment | AnnotationSource annotation

definition source_type :: "source \<Rightarrow> string" where
  "source_type s = (case s of AttachmentSource _ \<Rightarrow> ''attachment'' | AnnotationSource _ \<Rightarrow> ''annotation'')"

definition a11yDataSources :: "testCase \<Rightarrow> testResult \<Rightarrow> source list" where
  "a11yDataSources test result =
     map AttachmentSource (filter (\<lambda>a. att_name a = ''A11y'') (r_attachments result))
     @ map AnnotationSource (filter (\<lambda>a. an_type a = ''A11y'') (tc_annotations test))"

text \<open>\<^verbatim>\<open>JSON.parse('{}')\<close>: an object without any field.\<close>

definition emptyReportData :: reportData where
  "emptyReportData =
     \<lparr>rd_pageKey = None, rd_video = None, rd_errors = None, rd_criticalColor = None,
      rd_seriousColor = None, rd_moderateColor = None, rd_minorColor = None,
      rd_adoOrganization = None, rd_adoProject = None\<rparr>"

text \<open>The \<^verbatim>\<open>try\<close> block at the head of the loop: the payload, a silent skip
  (\<^verbatim>\<open>continue\<close> for an attachment without body and without file), the exception
  caught by \<^verbatim>\<open>catch (e)\<close>, or a parsed value that leaves the block and that the
  statements after it cannot use.\<close>

datatype loaded = Loaded reportData | Skipped | ParseFailed string | LoadedOther

definition parsePayload :: "env \<Rightarrow> string \<Rightarrow> loaded" where
  "parsePayload e txt =
     (case parseJSON e txt of
        ParseThrows ex \<Rightarrow> ParseFailed ex
      | ParsedOther \<Rightarrow> LoadedOther
      | ParsedObject rd \<Rightarrow> Loaded rd)"

definition loadReportData :: "env \<Rightarrow> source \<Rightarrow> loaded" where
  "loadReportData e s =
     (case s of
        AttachmentSource attach \<Rightarrow>
          (case att_body attach of
             Some body \<Rightarrow> parsePayload e body
           | None \<Rightarrow>
               (case att_path attach of
                  None \<Rightarrow> Skipped
                | Some p \<Rightarrow>
                    if p = [] then Skipped
                    else (case readPath e p of
                            NoFile \<Rightarrow> Skipped
                          | ReadError ex \<Rightarrow> ParseFailed ex
                          | FileContent txt \<Rightarrow> parsePayload e txt)))
      | AnnotationSource annot \<Rightarrow>
          (case an_description annot of
             None \<Rightarrow> Loaded emptyReportData
           | Some d \<Rightarrow> if d = [] then Loaded emptyReportData else parsePayload e d))"

subsection \<open>Report name of one scan\<close>

text \<open>\<open>nsources\<close> is \<^verbatim>\<open>a11yDataSources.length\<close> and \<^verbatim>\<open>index\<close> the 0-based position of
  the source among all sources of the test, parsed or not.\<close>

definition a11yReportName :: "string \<Rightarrow> nat \<Rightarrow> nat \<Rightarrow> string option \<Rightarrow> string" where
  "a11yReportName sanitizedTitle nsources index pageKey =
     (let generic = (if nsources > 1
                     then ''accessibility-'' @ sanitizedTitle @ ''-'' @ show_nat (index + 1) @ ''.html''
                     else ''accessibility-'' @ sanitizedTitle @ ''.html'')
      in if truthy pageKey then
           (let sanitizedKey = sanitizeKey (or_str pageKey [])
            in if sanitizedKey \<noteq> [] then
                 (if nsources > 1 then sanitizedKey @ ''-'' @ show_nat (index + 1) @ ''.html''
                  else sanitizedKey @ ''.html'')
               else generic)
         else generic)"

subsection \<open>Aggregation of one scan\<close>

text \<open>\<^verbatim>\<open>if (!wcagErrors[rule]) wcagErrors[rule] = {count: 0, ...}\<close> and then
  \<^verbatim>\<open>wcagErrors[rule].count += (err.total || 0)\<close>. For a rule id that is the name of an
  inherited property and has no entry of its own the guard is false, no entry is
  created, and the addition writes \<^verbatim>\<open>NaN\<close> into a property \<^verbatim>\<open>count\<close> of the inherited
  value: the own properties of \<^verbatim>\<open>wcagErrors\<close> stay as they are.\<close>

definition addWcag :: "a11yError \<Rightarrow> (string \<rightharpoonup> wcagEntry) \<Rightarrow> (string \<rightharpoonup> wcagEntry)" where
  "addWcag err m =
     (case m (e_id err) of
        None \<Rightarrow>
          if e_id err \<in> set inheritedKeys then m
          else m(e_id err \<mapsto> \<lparr>w_count = 0 + or0 (e_total err), w_severity = e_severity err,
                                w_helpUrl = e_helpUrl err, w_description = e_description err\<rparr>)
      | Some en \<Rightarrow> m(e_id err \<mapsto> en\<lparr>w_count := w_count en + or0 (e_total err)\<rparr>))"

text \<open>\<^verbatim>\<open>if (!browserSummaries[browser]) browserSummaries[browser] = {...}\<close>: nothing is
  created for a browser named like an inherited property.\<close>

definition ensureBrowser :: "string \<Rightarrow> reporter \<Rightarrow> reporter" where
  "ensureBrowser browser st =
     (case browserSummaries st browser of
        None \<Rightarrow>
          if browser \<in> set inheritedKeys then st
          else st\<lparr>browserSummaries := (browserSummaries st)(browser \<mapsto> emptySummary ''0s'')\<rparr>
      | Some _ \<Rightarrow> st)"

text \<open>An update of a counter through the reference \<^verbatim>\<open>bSummary\<close>, taken after the
  summary was ensured. When \<^verbatim>\<open>bSummary\<close> is an inherited value the update writes
  \<^verbatim>\<open>NaN\<close> into a property of that value and no summary changes.\<close>

definition updBrowser :: "string \<Rightarrow> (testSummary \<Rightarrow> testSummary) \<Rightarrow> reporter \<Rightarrow> reporter" where
  "updBrowser browser f st =
     (case browserSummaries st browser of
        None \<Rightarrow> st
      | Some b \<Rightarrow> st\<lparr>browserSummaries := (browserSummaries st)(browser \<mapsto> f b)\<rparr>)"

definition updGlobal :: "(testSummary \<Rightarrow> testSummary) \<Rightarrow> reporter \<Rightarrow> reporter" where
  "updGlobal f st = st\<lparr>executionSummary := f (executionSummary st)\<rparr>"

text \<open>The body of \<^verbatim>\<open>reportData.errors.forEach\<close>.\<close>

definition aggregateError :: "string \<Rightarrow> a11yError \<Rightarrow> reporter \<Rightarrow> reporter" where
  "aggregateError browser err st =
     updGlobal (\<lambda>g. g\<lparr>ts_wcagErrors := addWcag err (ts_wcagErrors g)\<rparr>)
       (updBrowser browser (\<lambda>b. b\<lparr>ts_wcagErrors := addWcag err (ts_wcagErrors b)\<rparr>) st)"

definition scanErrorCount :: "a11yError list \<Rightarrow> int" where
  "scanErrorCount errs = fold (\<lambda>err sum. sum + or0 (e_total err)) errs 0"

text \<open>The variables of \<^verbatim>\<open>processTestResult\<close> that the loop over the sources updates.\<close>

record scan_acc =
  a11yReportPath :: "string option"
  a11yErrorCount :: int
  aggregatedA11yErrors :: "a11yError list"
  errorLogs :: "string list"

definition stampReportData :: "options \<Rightarrow> string \<Rightarrow> reportData \<Rightarrow> reportData" where
  "stampReportData os video rd =
     (let rd1 = rd\<lparr>rd_criticalColor := Some (or_str (o_critical os) ''#c92a2a''),
                   rd_seriousColor := Some (or_str (o_serious os) ''#e67700''),
                   rd_moderateColor := Some (or_str (o_moderate os) ''#ca8a04''),
                   rd_minorColor := Some (or_str (o_minor os) ''#0891b2'')\<rparr>;
          rd2 = (case o_ado os of
                   None \<Rightarrow> rd1
                 | Some (org, proj) \<Rightarrow>
                     rd1\<lparr>rd_adoOrganization := (if truthy org then org else rd_adoOrganization rd1),
                         rd_adoProject := (if truthy proj then proj else rd_adoProject rd1)\<rparr>)
      in if video \<noteq> [] then rd2\<lparr>rd_video := Some video\<rparr> else rd2)"

text \<open>The loop body for a payload that was parsed: name, stamp, render, aggregate. When
  the payload has errors and \<^verbatim>\<open>bSummary\<close> is an inherited value (no summary of the
  browser's own), \<^verbatim>\<open>bSummary.wcagErrors\<close> is undefined and
  \<^verbatim>\<open>bSummary.wcagErrors[rule]\<close> throws.\<close>

definition processScan ::
  "env \<Rightarrow> string \<Rightarrow> string \<Rightarrow> string \<Rightarrow> string \<Rightarrow> nat \<Rightarrow> nat \<Rightarrow> reportData
     \<Rightarrow> reporter \<times> scan_acc \<Rightarrow> error + reporter \<times> scan_acc" where
  "processScan e sanitizedTitle testResultsFolder browser video nsources index rd0 sa =
     (case sa of (st, acc) \<Rightarrow>
        (let reportName = a11yReportName sanitizedTitle nsources index (rd_pageKey rd0);
             acc1 = acc\<lparr>a11yReportPath := Some reportName\<rparr>;
             rd = stampReportData (opts st) video rd0;
             auditFile = pathJoin testResultsFolder reportName
         in case render e ''accessibility-report.html'' auditFile (ScanReport auditFile rd) st of
              Inl ex \<Rightarrow> Inl ex
            | Inr st1 \<Rightarrow>
                (let st2 = ensureBrowser browser st1
                 in case rd_errors rd of
                      None \<Rightarrow> Inr (st2, acc1)
                    | Some errs \<Rightarrow>
                        if errs = [] then Inr (st2, acc1)
                        else
                          (case browserSummaries st2 browser of
                             None \<Rightarrow> Inl TypeError
                           | Some _ \<Rightarrow>
                               (let n = scanErrorCount errs;
                                    acc2 = acc1\<lparr>a11yErrorCount := a11yErrorCount acc1 + n,
                                                aggregatedA11yErrors := aggregatedA11yErrors acc1 @ errs\<rparr>;
                                    st3 = fold (aggregateError browser) errs st2;
                                    st4 = updBrowser browser
                                            (\<lambda>b. b\<lparr>ts_totalA11yErrorCount := ts_totalA11yErrorCount b + n\<rparr>) st3;
                                    st5 = updGlobal
                                            (\<lambda>g. g\<lparr>ts_totalA11yErrorCount := ts_totalA11yErrorCount g + n\<rparr>) st4
                                in Inr (st5, acc2))))))"

text \<open>\<^verbatim>\<open>for (const [index, source] of a11yDataSources.entries())\<close>. Nothing catches the
  \<^verbatim>\<open>TypeError\<close> of a parsed value that cannot be used: the task is rejected, whatever
  it had rendered before.\<close>

fun processSources ::
  "env \<Rightarrow> string \<Rightarrow> string \<Rightarrow> string \<Rightarrow> string \<Rightarrow> nat \<Rightarrow> (nat \<times> source) list
     \<Rightarrow> reporter \<times> scan_acc \<Rightarrow> error + reporter \<times> scan_acc" where
  "processSources e sanitizedTitle folder browser video nsources [] sa = Inr sa"
| "processSources e sanitizedTitle folder browser video nsources ((index, src) # rest) sa =
     (case loadReportData e src of
        Skipped \<Rightarrow> processSources e sanitizedTitle folder browser video nsources rest sa
      | ParseFailed ex \<Rightarrow>
          processSources e sanitizedTitle folder browser video nsources rest
            (fst sa,
             (snd sa)\<lparr>errorLogs := errorLogs (snd sa) @
                [ansiToHtml e (''[SnapAlly] Internal error parsing accessibility data from ''
                                 @ source_type src @ '': '' @ ex)]\<rparr>)
      | LoadedOther \<Rightarrow> Inl TypeError
      | Loaded rd \<Rightarrow>
          (case processScan e sanitizedTitle folder browser video nsources index rd sa of
             Inl ex \<Rightarrow> Inl ex
           | Inr sa' \<Rightarrow> processSources e sanitizedTitle folder browser video nsources rest sa'))"


subsection \<open>One finished test\<close>

text \<open>One log line per error of the result: message, line feed and stack when the stack
  is truthy, \<^verbatim>\<open>err.message || 'Error occurred'\<close> otherwise. The template literal prints
  an absent message as \<^verbatim>\<open>undefined\<close> and an empty one as the empty string.\<close>

definition errorLogsOf :: "env \<Rightarrow> testResult \<Rightarrow> string list" where
  "errorLogsOf e result =
     map (\<lambda>err. ansiToHtml e
            (if truthy (err_stack err)
             then (case err_message err of None \<Rightarrow> ''undefined'' | Some m \<Rightarrow> m)
                  @ [CHR 0x0A] @ or_str (err_stack err) []
             else or_str (err_message err) ''Error occurred''))
       (r_errors result)"

definition annotationsOfType :: "string \<Rightarrow> testCase \<Rightarrow> string list" where
  "annotationsOfType ty test =
     map (\<lambda>a. or_str (an_description a) []) (filter (\<lambda>a. an_type a = ty) (tc_annotations test))"

definition stepsOf :: "testCase \<Rightarrow> string list" where
  "stepsOf test =
     map (\<lambda>a. or_str (an_description a) ''Step'')
       (filter (\<lambda>a. an_type a \<notin> set skipTypes) (tc_annotations test))"

definition descriptionOf :: "testCase \<Rightarrow> string" where
  "descriptionOf test =
     (case find (\<lambda>a. an_type a = ''Description'') (tc_annotations test) of
        None \<Rightarrow> ''No Description''
      | Some a \<Rightarrow> or_str (an_description a) ''No Description'')"

text \<open>The counters of one summary: \<^verbatim>\<open>switch (result.status)\<close> has no case for
  \<^verbatim>\<open>timedOut\<close> and \<^verbatim>\<open>interrupted\<close>.\<close>

definition countStatus :: "status \<Rightarrow> testSummary \<Rightarrow> testSummary" where
  "countStatus s sm =
     (case s of
        passed \<Rightarrow> sm\<lparr>ts_totalPassed := ts_totalPassed sm + 1\<rparr>
      | failed \<Rightarrow> sm\<lparr>ts_totalFailed := ts_totalFailed sm + 1\<rparr>
      | skipped \<Rightarrow> sm\<lparr>ts_totalSkipped := ts_totalSkipped sm + 1\<rparr>
      | _ \<Rightarrow> sm)"

definition incTotal :: "testSummary \<Rightarrow> testSummary" where
  "incTotal sm = sm\<lparr>ts_total := ts_total sm + 1\<rparr>"

text \<open>\<^verbatim>\<open>const isFlaky = test.results.length > 1 && result.status === 'passed'\<close>\<close>

definition isFlaky :: "testCase \<Rightarrow> testResult \<Rightarrow> bool" where
  "isFlaky test result \<longleftrightarrow> length (tc_results test) > 1 \<and> r_status result = passed"

definition countFlaky :: "bool \<Rightarrow> testSummary \<Rightarrow> testSummary" where
  "countFlaky fl sm = (if fl then sm\<lparr>ts_totalFlaky := ts_totalFlaky sm + 1\<rparr> else sm)"

text \<open>\<^verbatim>\<open>groupedResults[fileGroup].push(testStats)\<close>: without a group of its own the
  value is undefined or inherited, neither has a \<^verbatim>\<open>push\<close>, and the call is a
  \<^verbatim>\<open>TypeError\<close>.\<close>

definition pushResult :: "string \<Rightarrow> testResults \<Rightarrow> reporter \<Rightarrow> error + reporter" where
  "pushResult fileGroup testStats st =
     (case ts_groupedResults (executionSummary st) fileGroup of
        None \<Rightarrow> Inl TypeError
      | Some rs \<Rightarrow>
          Inr (updGlobal (\<lambda>g. g\<lparr>ts_groupedResults := (ts_groupedResults g)(fileGroup \<mapsto> rs @ [testStats])\<rparr>) st))"

text \<open>\<^verbatim>\<open>if (!groupedResults[fileGroup]) groupedResults[fileGroup] = []\<close>: nothing is
  created for a file group named like an inherited property.\<close>

definition ensureGroup :: "string \<Rightarrow> reporter \<Rightarrow> reporter" where
  "ensureGroup fileGroup st =
     (case ts_groupedResults (executionSummary st) fileGroup of
        None \<Rightarrow>
          if fileGroup \<in> set inheritedKeys then st
          else updGlobal (\<lambda>g. g\<lparr>ts_groupedResults := (ts_groupedResults g)(fileGroup \<mapsto> [])\<rparr>) st
      | Some _ \<Rightarrow> st)"

text \<open>\<^verbatim>\<open>const testStats: TestResults = {...}\<close>; \<open>num\<close> is \<^verbatim>\<open>this.testIndex\<close> at that
  point.\<close>

definition testStatsOf ::
  "env \<Rightarrow> testCase \<Rightarrow> testResult \<Rightarrow> nat \<Rightarrow> string \<Rightarrow> string \<Rightarrow> string \<Rightarrow> string \<Rightarrow> string
     \<Rightarrow> string list \<Rightarrow> (string \<times> string) list \<Rightarrow> scan_acc \<Rightarrow> testResults" where
  "testStatsOf e test result num sanitizedTitle testFolderName fileGroup browser video
       screenshots allAttachments acc =
     \<lparr>tr_num = num,
      tr_folderName = testFolderName,
      tr_executionReportPath = testFolderName @ ''/'' @ ''execution-'' @ sanitizedTitle @ ''.html'',
      tr_title = tc_title test,
      tr_fileName = fileGroup,
      tr_timeDuration = r_duration result,
      tr_duration = formatDuration e (r_duration result),
      tr_description = descriptionOf test,
      tr_status = r_status result,
      tr_browser = browser,
      tr_tags = map (remove1 CHR ''@'') (tc_tags test),
      tr_preConditions = annotationsOfType ''Pre Condition'' test,
      tr_steps = stepsOf test,
      tr_postConditions = annotationsOfType ''Post Condition'' test,
      tr_statusIcon = statusIconOf (status_name (r_status result)),
      tr_videoPath = video,
      tr_screenshotPaths = screenshots,
      tr_attachments = allAttachments,
      tr_errors = errorLogs acc,
      tr_a11yReportPath = a11yReportPath acc,
      tr_a11yErrorCount = a11yErrorCount acc,
      tr_a11yErrors = aggregatedA11yErrors acc\<rparr>"

text \<open>Section 4 of \<^verbatim>\<open>processTestResult\<close>, after the loop over the sources: the counters
  of the browser, the test's record, the counters of the run, the execution report. The
  record's \<open>num\<close> is the test index of the state the task is resumed on.\<close>

definition finishTest ::
  "env \<Rightarrow> testCase \<Rightarrow> testResult \<Rightarrow> string \<Rightarrow> string \<Rightarrow> string \<Rightarrow> string \<Rightarrow> string
     \<Rightarrow> string list \<Rightarrow> (string \<times> string) list \<Rightarrow> reporter \<times> scan_acc \<Rightarrow> error + reporter" where
  "finishTest e test result sanitizedTitle testFolderName fileGroup browser video
       screenshots allAttachments sa =
     (case sa of (st0, acc) \<Rightarrow>
        (let testResultsFolder = pathJoin (outputFolder st0) testFolderName;
             st1 = ensureBrowser browser st0;
             st2 = updBrowser browser (\<lambda>b. countStatus (r_status result) (incTotal b)) st1;
             executionReportName = ''execution-'' @ sanitizedTitle @ ''.html'';
             testStats = testStatsOf e test result (testIndex st0) sanitizedTitle testFolderName
                           fileGroup browser video screenshots allAttachments acc
         in case pushResult fileGroup testStats st2 of
              Inl ex \<Rightarrow> Inl ex
            | Inr st3 \<Rightarrow>
                (let st4 = updGlobal
                             (\<lambda>g. incTotal (countStatus (r_status result)
                                     (countFlaky (isFlaky test result) g))) st3;
                     indexFile = pathJoin testResultsFolder executionReportName
                 in render e ''test-execution-report.html'' indexFile
                      (ExecutionReport indexFile testStats) st4)))"

text \<open>The constants that \<^verbatim>\<open>processTestResult\<close> computes before its first
  \<^verbatim>\<open>await\<close>.\<close>

record locals =
  l_sanitizedTitle :: string
  l_testFolderName :: string
  l_testResultsFolder :: string
  l_fileGroup :: string
  l_browser :: string

text \<open>The task of a finished test up to \<^verbatim>\<open>await this.assetsManager.copyTestVideo(...)\<close>:
  it runs inside \<^verbatim>\<open>onTestEnd\<close>, takes the next test index, names the folder after it and
  makes sure that the file group exists.\<close>

definition beginTask :: "env \<Rightarrow> testCase \<Rightarrow> reporter \<Rightarrow> locals \<times> reporter" where
  "beginTask e test st =
     (let st1 = st\<lparr>testIndex := testIndex st + 1\<rparr>;
          sanitizedTitle = sanitizeTitle (tc_title test);
          testFolderName = show_nat (testIndex st1) @ ''-'' @ sanitizedTitle;
          fileGroup = relativePath e (projectRoot st1) (tc_file test)
      in (\<lparr>l_sanitizedTitle = sanitizedTitle, l_testFolderName = testFolderName,
           l_testResultsFolder = pathJoin (outputFolder st1) testFolderName,
           l_fileGroup = fileGroup, l_browser = or_str (tc_project test) ''unknown''\<rparr>,
          ensureGroup fileGroup st1))"

text \<open>The rest of the task, from the video copy on, on the state \<open>st\<close> of the reporter
  when the task is resumed: while the video is polled (timers of 200 ms) other test-end
  events may have been handled. The three copies that follow the video are synchronous
  and nothing catches their exceptions.\<close>

definition continueTask ::
  "env \<Rightarrow> testCase \<Rightarrow> testResult \<Rightarrow> locals \<Rightarrow> reporter \<Rightarrow> error + reporter" where
  "continueTask e test result l st =
     (let video = copyTestVideo (baseName e) (copyOk e) (videoFs e) result
      in case copyScreenshots e result of
           None \<Rightarrow> Inl FsError
         | Some screenshots \<Rightarrow>
             (case copyPngAttachments e result of
                None \<Rightarrow> Inl FsError
              | Some pngAttachments \<Rightarrow>
                  (case copyAllOtherAttachments e result of
                     None \<Rightarrow> Inl FsError
                   | Some otherAttachments \<Rightarrow>
                       (let sources = a11yDataSources test result;
                            acc0 = \<lparr>a11yReportPath = None, a11yErrorCount = 0,
                                    aggregatedA11yErrors = [], errorLogs = errorLogsOf e result\<rparr>
                        in case processSources e (l_sanitizedTitle l) (l_testResultsFolder l)
                                  (l_browser l) video (length sources) (enumerate 0 sources)
                                  (st, acc0) of
                             Inl ex \<Rightarrow> Inl ex
                           | Inr sa \<Rightarrow>
                               finishTest e test result (l_sanitizedTitle l) (l_testFolderName l)
                                 (l_fileGroup l) (l_browser l) video screenshots
                                 (pngAttachments @ otherAttachments) sa))))"

text \<open>The task of one finished test, run from its start to its end without another
  test-end event in between.\<close>

definition processTestResult :: "env \<Rightarrow> testCase \<Rightarrow> testResult \<Rightarrow> reporter \<Rightarrow> error + reporter" where
  "processTestResult e test result st =
     (case beginTask e test st of (l, st1) \<Rightarrow> continueTask e test result l st1)"

text \<open>\<^verbatim>\<open>onEnd\<close> once every task has finished: stamp and render the summary.\<close>

definition onEnd :: "env \<Rightarrow> string \<Rightarrow> nat \<Rightarrow> reporter \<Rightarrow> error + reporter" where
  "onEnd e runStatus runDuration st =
     (let summaryFile = pathJoin (outputFolder st) ''summary.html'';
          st1 = updGlobal (\<lambda>g. g\<lparr>ts_duration := formatDuration e runDuration,
                                  ts_status := runStatus,
                                  ts_statusIcon := statusIconOf runStatus\<rparr>) st
      in render e ''execution-summary.html'' summaryFile (SummaryReport summaryFile) st1)"

text \<open>The test-end events of a run, each task run to its end before the next.\<close>

fun runTests :: "env \<Rightarrow> (testCase \<times> testResult) list \<Rightarrow> reporter \<Rightarrow> error + reporter" where
  "runTests e [] st = Inr st"
| "runTests e ((test, result) # rest) st =
     (case processTestResult e test result st of
        Inl ex \<Rightarrow> Inl ex
      | Inr st' \<Rightarrow> runTests e rest st')"


section \<open>Specification-side definitions and concrete inputs\<close>

definition demo_scan_env :: scan_env where
  "demo_scan_env =
     \<lparr>isVisible = (\<lambda>sel. sel = ''#shown''), captureBase64 = (\<lambda>_. []),
      stringifySteps = (\<lambda>_. [])\<rparr>"

definition demo_violation :: "string list \<Rightarrow> violation" where
  "demo_violation sels =
     \<lparr>v_id = ''image-alt'', v_impact = Some ''critical'', v_description = [], v_help = [],
      v_helpUrl = [], v_tags = [''cat.text-alternatives'', ''wcag2a''],
      v_nodes = map (\<lambda>sel. \<lparr>n_html = None, n_target = [sel]\<rparr>) sels\<rparr>"









text \<open>Vocabulary for the video poll: a file is ready at a tick when it exists with a
  non-zero size; the paths the loop looks at; a path that was looked at ten times in a
  row without being ready; a path measured ready with a size of at most \<open>m\<close>.\<close>

definition readyAt :: "filesys \<Rightarrow> nat \<Rightarrow> string \<Rightarrow> bool" where
  "readyAt fs t p = (case fs t p of Size n \<Rightarrow> n > 0 | _ \<Rightarrow> False)"

definition videoPaths :: "attachment list \<Rightarrow> string list" where
  "videoPaths as =
     concat (map (\<lambda>a. case att_path a of None \<Rightarrow> [] | Some p \<Rightarrow> if p = [] then [] else [p]) as)"

definition givenUp :: "filesys \<Rightarrow> string \<Rightarrow> bool" where
  "givenUp fs p \<longleftrightarrow> (\<exists>c0. \<forall>t<10. \<not> readyAt fs (c0 + t) p)"

definition measuredUpTo :: "filesys \<Rightarrow> string \<Rightarrow> int \<Rightarrow> bool" where
  "measuredUpTo fs p m \<longleftrightarrow> (\<exists>t n. fs t p = Size n \<and> 0 < n \<and> int n \<le> m)"

definition fileSize :: "fstat \<Rightarrow> nat" where
  "fileSize st = (case st of Size n \<Rightarrow> n | _ \<Rightarrow> 0)"

definition demo_video :: "string \<Rightarrow> attachment" where
  "demo_video p = \<lparr>att_name = ''video'', att_path = Some p, att_body = None\<rparr>"

text \<open>A result with three videos and, between them, a trace that is larger than any of
  them.\<close>

definition demo_video_result :: testResult where
  "demo_video_result =
     \<lparr>r_status = passed, r_duration = 1000,
      r_attachments = [demo_video ''/videos/a.webm'', demo_video ''/videos/b.webm'',
                       \<lparr>att_name = ''trace'', att_path = Some ''/videos/trace.zip'', att_body = None\<rparr>,
                       demo_video ''/videos/c.webm''],
      r_errors = [], r_steps = []\<rparr>"

text \<open>Three videos of 0, 512 and 2048 bytes and a trace of 9000 bytes that never change.\<close>

definition demo_fs :: filesys where
  "demo_fs t p =
     (if p = ''/videos/a.webm'' then Size 0
      else if p = ''/videos/b.webm'' then Size 512
      else if p = ''/videos/c.webm'' then Size 2048
      else if p = ''/videos/trace.zip'' then Size 9000
      else Absent)"

definition demo_basename :: "string \<Rightarrow> string" where
  "demo_basename p = rev (takeWhile (\<lambda>c. c \<noteq> CHR ''/'') (rev p))"

text \<open>Views of the reporter state used to state what one test and one run do to it.\<close>

definition counters :: "testSummary \<Rightarrow> nat \<times> nat \<times> nat \<times> nat" where
  "counters s = (ts_total s, ts_totalPassed s, ts_totalFailed s, ts_totalSkipped s)"

definition browserCounters :: "reporter \<Rightarrow> string \<Rightarrow> nat \<times> nat \<times> nat \<times> nat" where
  "browserCounters st b =
     (case browserSummaries st b of None \<Rightarrow> (0, 0, 0, 0) | Some s \<Rightarrow> counters s)"

definition bump :: "status \<Rightarrow> nat \<times> nat \<times> nat \<times> nat \<Rightarrow> nat \<times> nat \<times> nat \<times> nat" where
  "bump s c =
     (case c of (t, p, f, k) \<Rightarrow>
        (t + 1, p + (if s = passed then 1 else 0), f + (if s = failed then 1 else 0),
         k + (if s = skipped then 1 else 0)))"

definition browserOf :: "testCase \<Rightarrow> string" where
  "browserOf test = or_str (tc_project test) ''unknown''"

definition payloadErrors :: "reportData \<Rightarrow> a11yError list" where
  "payloadErrors rd = (case rd_errors rd of None \<Rightarrow> [] | Some es \<Rightarrow> es)"

definition loadedOf :: "env \<Rightarrow> (nat \<times> source) list \<Rightarrow> (nat \<times> reportData) list" where
  "loadedOf e isrcs =
     concat (map (\<lambda>(i, src). case loadReportData e src of Loaded rd \<Rightarrow> [(i, rd)] | _ \<Rightarrow> []) isrcs)"

definition failureLogs :: "env \<Rightarrow> (nat \<times> source) list \<Rightarrow> string list" where
  "failureLogs e isrcs =
     concat (map (\<lambda>(i, src). case loadReportData e src of
                     ParseFailed ex \<Rightarrow>
                       [ansiToHtml e (''[SnapAlly] Internal error parsing accessibility data from ''
                                        @ source_type src @ '': '' @ ex)]
                   | _ \<Rightarrow> []) isrcs)"

definition frame :: "reporter \<Rightarrow> reporter \<Rightarrow> bool" where
  "frame st st' \<longleftrightarrow>
     testIndex st' = testIndex st \<and> outputFolder st' = outputFolder st \<and>
     projectRoot st' = projectRoot st \<and> opts st' = opts st \<and>
     counters (executionSummary st') = counters (executionSummary st) \<and>
     ts_totalFlaky (executionSummary st') = ts_totalFlaky (executionSummary st) \<and>
     ts_groupedResults (executionSummary st') = ts_groupedResults (executionSummary st) \<and>
     browserCounters st' = browserCounters st \<and>
     (\<forall>k \<in> set inheritedKeys. browserSummaries st' k = None \<longleftrightarrow> browserSummaries st k = None)"

definition scanReportName :: "string \<Rightarrow> nat \<Rightarrow> nat \<times> reportData \<Rightarrow> string" where
  "scanReportName title n ird = a11yReportName title n (fst ird) (rd_pageKey (snd ird))"

definition scanReportOf ::
  "options \<Rightarrow> string \<Rightarrow> string \<Rightarrow> string \<Rightarrow> nat \<Rightarrow> nat \<times> reportData \<Rightarrow> written" where
  "scanReportOf os video title folder n ird =
     ScanReport (pathJoin folder (scanReportName title n ird)) (stampReportData os video (snd ird))"

definition lastReport :: "string \<Rightarrow> nat \<Rightarrow> (nat \<times> reportData) list \<Rightarrow> string option \<Rightarrow> string option" where
  "lastReport title n loaded = (\<lambda>old. if loaded = [] then old else Some (scanReportName title n (last loaded)))"

text \<open>The sources of a test with their positions, the payloads among them that were
  parsed, the errors those payloads report, the folder of the test's files and the record
  of the test, as \<^verbatim>\<open>processTestResult\<close> computes them on the state \<open>st\<close> it starts
  from.\<close>

definition indexedSources :: "testCase \<Rightarrow> testResult \<Rightarrow> (nat \<times> source) list" where
  "indexedSources test result = enumerate 0 (a11yDataSources test result)"

definition loadedPayloads :: "env \<Rightarrow> testCase \<Rightarrow> testResult \<Rightarrow> (nat \<times> reportData) list" where
  "loadedPayloads e test result = loadedOf e (indexedSources test result)"

definition testErrors :: "env \<Rightarrow> testCase \<Rightarrow> testResult \<Rightarrow> a11yError list" where
  "testErrors e test result =
     concat (map (\<lambda>ird. payloadErrors (snd ird)) (loadedPayloads e test result))"

definition testFolderName :: "reporter \<Rightarrow> testCase \<Rightarrow> string" where
  "testFolderName st test = show_nat (testIndex st + 1) @ ''-'' @ sanitizeTitle (tc_title test)"

definition testResultsFolder :: "reporter \<Rightarrow> testCase \<Rightarrow> string" where
  "testResultsFolder st test = pathJoin (outputFolder st) (testFolderName st test)"

definition fileGroupOf :: "env \<Rightarrow> reporter \<Rightarrow> testCase \<Rightarrow> string" where
  "fileGroupOf e st test = relativePath e (projectRoot st) (tc_file test)"

definition videoOf :: "env \<Rightarrow> testResult \<Rightarrow> string" where
  "videoOf e result = copyTestVideo (baseName e) (copyOk e) (videoFs e) result"

definition screenshotsOf :: "env \<Rightarrow> testResult \<Rightarrow> string list" where
  "screenshotsOf e result = (case copyScreenshots e result of None \<Rightarrow> [] | Some ps \<Rightarrow> ps)"

definition attachmentsOf :: "env \<Rightarrow> testResult \<Rightarrow> (string \<times> string) list" where
  "attachmentsOf e result =
     (case copyPngAttachments e result of None \<Rightarrow> [] | Some ps \<Rightarrow> ps)
     @ (case copyAllOtherAttachments e result of None \<Rightarrow> [] | Some ps \<Rightarrow> ps)"

definition finalAcc :: "env \<Rightarrow> testCase \<Rightarrow> testResult \<Rightarrow> scan_acc" where
  "finalAcc e test result =
     \<lparr>a11yReportPath =
        lastReport (sanitizeTitle (tc_title test)) (length (a11yDataSources test result))
          (loadedPayloads e test result) None,
      a11yErrorCount =
        sum_list (map (\<lambda>ird. scanErrorCount (payloadErrors (snd ird))) (loadedPayloads e test result)),
      aggregatedA11yErrors = testErrors e test result,
      errorLogs = errorLogsOf e result @ failureLogs e (indexedSources test result)\<rparr>"

definition testRecord :: "env \<Rightarrow> reporter \<Rightarrow> testCase \<Rightarrow> testResult \<Rightarrow> testResults" where
  "testRecord e st test result =
     testStatsOf e test result (testIndex st + 1) (sanitizeTitle (tc_title test))
       (testFolderName st test) (fileGroupOf e st test) (browserOf test) (videoOf e result)
       (screenshotsOf e result) (attachmentsOf e result) (finalAcc e test result)"

definition executionReportFile :: "reporter \<Rightarrow> testCase \<Rightarrow> string" where
  "executionReportFile st test =
     pathJoin (testResultsFolder st test) (''execution-'' @ sanitizeTitle (tc_title test) @ ''.html'')"

definition scanReports :: "env \<Rightarrow> reporter \<Rightarrow> testCase \<Rightarrow> testResult \<Rightarrow> written list" where
  "scanReports e st test result =
     map (scanReportOf (opts st) (videoOf e result) (sanitizeTitle (tc_title test))
            (testResultsFolder st test) (length (a11yDataSources test result)))
       (loadedPayloads e test result)"

definition groupOf :: "reporter \<Rightarrow> string \<Rightarrow> testResults list" where
  "groupOf st g = (case ts_groupedResults (executionSummary st) g of None \<Rightarrow> [] | Some rs \<Rightarrow> rs)"

text \<open>Every render of one test succeeds.\<close>

definition rendersOk :: "env \<Rightarrow> reporter \<Rightarrow> testCase \<Rightarrow> testResult \<Rightarrow> bool" where
  "rendersOk e st test result \<longleftrightarrow>
     (\<forall>w \<in> set (scanReports e st test result).
        renderOk e ''accessibility-report.html'' (written_path w)) \<and>
     renderOk e ''test-execution-report.html'' (executionReportFile st test)"

text \<open>The errors reported by the parsed payloads of all tests of a run, the sum of the
  totals that a rule has among a list of errors, and the number of tests of a run that
  ended with a given status.\<close>

definition runErrors :: "env \<Rightarrow> (testCase \<times> testResult) list \<Rightarrow> a11yError list" where
  "runErrors e events = concat (map (\<lambda>tr. testErrors e (fst tr) (snd tr)) events)"

definition ruleTotal :: "string \<Rightarrow> a11yError list \<Rightarrow> int" where
  "ruleTotal rule errs =
     sum_list (map (\<lambda>err. or0 (e_total err)) (filter (\<lambda>err. e_id err = rule) errs))"

definition statusCount :: "status \<Rightarrow> testResult list \<Rightarrow> nat" where
  "statusCount s results = length (filter (\<lambda>r. r_status r = s) results)"

definition resultsOf :: "(testCase \<times> testResult) list \<Rightarrow> testResult list" where
  "resultsOf events = map snd events"

definition resultsOfBrowser :: "string \<Rightarrow> (testCase \<times> testResult) list \<Rightarrow> testResult list" where
  "resultsOfBrowser b events = map snd (filter (\<lambda>tr. browserOf (fst tr) = b) events)"

definition countOf :: "(string \<rightharpoonup> wcagEntry) \<Rightarrow> string \<Rightarrow> int" where
  "countOf m rule = (case m rule of None \<Rightarrow> 0 | Some en \<Rightarrow> w_count en)"

text \<open>A small run for the examples: payloads are named by their text, every render
  succeeds, no video is recorded.\<close>

definition demo_error :: "string \<Rightarrow> int \<Rightarrow> a11yError" where
  "demo_error rule n =
     \<lparr>e_id = rule, e_description = ''Elements must meet the rule'', e_wcagRule = ''wcag2aa'',
      e_severity = ''serious'', e_help = ''Fix the element'',
      e_helpUrl = ''https://rules.example/'' @ rule, e_guideline = ''wcag2aa'',
      e_total = Some n, e_target = Some []\<rparr>"

definition demo_payload :: "string \<Rightarrow> a11yError list \<Rightarrow> reportData" where
  "demo_payload key errs = emptyReportData\<lparr>rd_pageKey := Some key, rd_errors := Some errs\<rparr>"

definition demo_env :: env where
  "demo_env =
     \<lparr>parseJSON = (\<lambda>txt.
         if txt = ''home'' then ParsedObject (demo_payload ''https://example.com/home'' [demo_error ''color-contrast'' 3])
         else if txt = ''cart'' then ParsedObject (demo_payload ''https://example.com/cart'' [demo_error ''color-contrast'' 3])
         else if txt = ''same'' then ParsedObject (demo_payload ''https://example.com/home'' [])
         else if txt = ''links'' then ParsedObject (demo_payload ''https://example.com/links'' [demo_error ''toString'' 3])
         else if txt = ''null'' then ParsedOther
         else ParseThrows ''SyntaxError: Unexpected token''),
      readPath = (\<lambda>_. NoFile),
      renderOk = (\<lambda>_ _. True),
      ansiToHtml = (\<lambda>s. s),
      relativePath = (\<lambda>root f. f),
      baseName = demo_basename,
      copyOk = (\<lambda>_. True),
      writeOk = (\<lambda>_. True),
      pathExists = (\<lambda>_. False),
      dateNow = (\<lambda>i. 170 + i),
      videoFs = (\<lambda>_ _. Absent),
      formatDuration = (\<lambda>_. ''1.0s'')\<rparr>"

definition demo_attachment :: "string \<Rightarrow> attachment" where
  "demo_attachment body = \<lparr>att_name = ''A11y'', att_path = None, att_body = Some body\<rparr>"

definition demo_outcome :: "status \<Rightarrow> string list \<Rightarrow> testResult" where
  "demo_outcome s bodies =
     \<lparr>r_status = s, r_duration = 1000, r_attachments = map demo_attachment bodies,
      r_errors = [], r_steps = []\<rparr>"

definition demo_test :: "string \<Rightarrow> testResult list \<Rightarrow> testCase" where
  "demo_test title attempts =
     \<lparr>tc_title = title, tc_file = ''shop.spec.ts'', tc_tags = [''@a11y''], tc_annotations = [],
      tc_project = Some ''chromium'', tc_results = attempts\<rparr>"

definition demo_reporter :: reporter where
  "demo_reporter =
     onBegin None
       (newReporter \<lparr>o_critical = None, o_serious = None, o_moderate = None, o_minor = None,
                     o_ado = None\<rparr> ''report'')"

definition demo_attachments :: "attachment list \<Rightarrow> testResult" where
  "demo_attachments as =
     \<lparr>r_status = passed, r_duration = 1000, r_attachments = as, r_errors = [], r_steps = []\<rparr>"

text \<open>A run of one test with three scans, two of which report three targets for
  \<open>color-contrast\<close> and the third three targets for a rule named \<open>toString\<close>; between
  them a trace whose body would parse as a scan.\<close>

definition demo_rules_outcome :: testResult where
  "demo_rules_outcome =
     demo_attachments
       [demo_attachment ''home'',
        \<lparr>att_name = ''trace'', att_path = None, att_body = Some ''home''\<rparr>,
        demo_attachment ''cart'', demo_attachment ''links'']"

definition demo_run_rules :: "(testCase \<times> testResult) list" where
  "demo_run_rules = [(demo_test ''Shop pages'' [demo_rules_outcome], demo_rules_outcome)]"

definition demo_run_timed_out :: "(testCase \<times> testResult) list" where
  "demo_run_timed_out =
     [(demo_test ''Checkout'' [demo_outcome passed []], demo_outcome passed []),
      (demo_test ''Search'' [demo_outcome timedOut []], demo_outcome timedOut [])]"

text \<open>The name of a scan report without its index suffix and extension: the sanitized
  page key, or the generic name when the key is absent or sanitizes to nothing.\<close>

definition reportBase :: "string \<Rightarrow> string option \<Rightarrow> string" where
  "reportBase sanitizedTitle pageKey =
     (if truthy pageKey \<and> sanitizeKey (or_str pageKey []) \<noteq> []
      then sanitizeKey (or_str pageKey [])
      else ''accessibility-'' @ sanitizedTitle)"

text \<open>Results for the examples of the report names. A screenshot whose body would parse
  as a scan, followed by two scans of the same page; the screenshot and one scan; an
  \<open>A11y\<close> attachment without body and without file, followed by one scan.\<close>

definition demo_screenshot :: attachment where
  "demo_screenshot = \<lparr>att_name = ''screenshot'', att_path = None, att_body = Some ''home''\<rparr>"

definition demo_same_key_outcome :: testResult where
  "demo_same_key_outcome =
     demo_attachments [demo_screenshot, demo_attachment ''home'', demo_attachment ''same'']"

definition demo_same_key_test :: testCase where
  "demo_same_key_test = demo_test ''Shop pages'' [demo_same_key_outcome]"

definition demo_single_outcome :: testResult where
  "demo_single_outcome = demo_attachments [demo_screenshot, demo_attachment ''home'']"

definition demo_single_test :: testCase where
  "demo_single_test = demo_test ''Shop pages'' [demo_single_outcome]"

definition demo_stray_outcome :: testResult where
  "demo_stray_outcome =
     demo_attachments
       [\<lparr>att_name = ''A11y'', att_path = None, att_body = None\<rparr>, demo_attachment ''home'']"

definition demo_stray_test :: testCase where
  "demo_stray_test = demo_test ''Shop pages'' [demo_stray_outcome]"

text \<open>Results with three payloads, the second of which is not valid JSON, or is the JSON
  text \<^verbatim>\<open>null\<close>.\<close>

definition demo_broken_outcome :: testResult where
  "demo_broken_outcome = demo_outcome passed [''home'', ''{broken'', ''cart'']"

definition demo_broken_test :: testCase where
  "demo_broken_test = demo_test ''Shop pages'' [demo_broken_outcome]"

definition demo_null_outcome :: testResult where
  "demo_null_outcome = demo_outcome passed [''home'', ''null'', ''cart'']"

definition demo_null_test :: testCase where
  "demo_null_test = demo_test ''Shop pages'' [demo_null_outcome]"

text \<open>The maximal runs of ASCII letters and digits of a string, in order, and a list of
  words joined by single hyphens: the sanitized key in other words.\<close>

function alnum_words :: "string \<Rightarrow> string list" where
  "alnum_words s =
     (case dropWhile (\<lambda>c. \<not> is_alnum c) s of
        [] \<Rightarrow> []
      | c # cs \<Rightarrow> takeWhile is_alnum (c # cs) # alnum_words (dropWhile is_alnum cs))"
  by pat_completeness auto
termination
proof (relation "measure length", goal_cases)
  case 1
  show ?case by simp
next
  case (2 s c cs)
  have "length (dropWhile is_alnum cs) \<le> length cs" by (rule length_dropWhile_le)
  moreover have "length (c # cs) \<le> length s"
    using 2 length_dropWhile_le[of "\<lambda>c. \<not> is_alnum c" s] by simp
  ultimately show ?case by simp
qed

fun join_hyphen :: "string list \<Rightarrow> string" where
  "join_hyphen [] = []"
| "join_hyphen [w] = w"
| "join_hyphen (w # v # ws) = w @ CHR ''-'' # join_hyphen (v # ws)"

text \<open>Trimming the hyphens at the end only.\<close>

definition rtrim :: "string \<Rightarrow> string" where
  "rtrim s = rev (dropWhile (\<lambda>c. c = CHR ''-'') (rev s))"

text \<open>A string that starts with the protocol, and the derivation in the words of the
  specification: strip the protocol prefix, collapse, trim, lower-case.\<close>

definition protocolAt :: "string \<Rightarrow> bool" where
  "protocolAt s \<longleftrightarrow> prefix ''https://'' s \<or> prefix ''http://'' s"

definition spec_stripPrefix :: "string \<Rightarrow> string" where
  "spec_stripPrefix s =
     (if prefix ''https://'' s then drop 8 s else if prefix ''http://'' s then drop 7 s else s)"

definition spec_sanitizeKey :: "string \<Rightarrow> string" where
  "spec_sanitizeKey pageKey =
     toLowerCase (trim_hyphens (collapse_non_alnum (spec_stripPrefix pageKey)))"

section \<open>Tasks and the barrier of onEnd\<close>

text \<open>
  \<^verbatim>\<open>onTestEnd\<close> pushes the promise of \<^verbatim>\<open>processTestResult\<close> onto \<^verbatim>\<open>this.tasks\<close>
  and returns; the task runs up to its next \<^verbatim>\<open>await\<close> whenever the event loop resumes
  it. \<^verbatim>\<open>onEnd\<close> awaits \<^verbatim>\<open>Promise.all(this.tasks)\<close> and then renders the summary.
  A task is what it still has to render, or a rejected promise (a task that throws, be
  it a render, a copy or a \<^verbatim>\<open>TypeError\<close>; what it wrote before is left out). The model follows the files on disk,
  not the counters, which the run-to-completion model above covers.
\<close>

datatype task = Running "written list" | Rejected

datatype phase = Collecting | Awaiting string nat | Rendered | Failed

record sched =
  tasks :: "task list"
  phase :: phase
  disk :: "written list"

text \<open>The task of a finished test: everything \<^verbatim>\<open>processTestResult\<close> renders for it, with
  the test index taken when the task starts.\<close>

definition spawn :: "env \<Rightarrow> reporter \<Rightarrow> nat \<Rightarrow> testCase \<Rightarrow> testResult \<Rightarrow> task" where
  "spawn e cfg started test result =
     (case processTestResult e test result (cfg\<lparr>testIndex := started, files := []\<rparr>) of
        Inl ex \<Rightarrow> Rejected
      | Inr st' \<Rightarrow> Running (files st'))"

text \<open>What can happen next: the driver reports a finished test, the event loop resumes
  a task at its next render, the driver calls \<^verbatim>\<open>onEnd\<close>, or \<^verbatim>\<open>Promise.all\<close>
  settles. \<open>None\<close> means the event cannot happen in that state; \<^verbatim>\<open>Promise.all\<close> does
  not settle while a task that was not rejected still has something to render.\<close>

datatype event = TestEnd testCase testResult | Resume nat | RunEnd string nat | Settle

fun fire :: "env \<Rightarrow> reporter \<Rightarrow> event \<Rightarrow> sched \<Rightarrow> sched option" where
  "fire e cfg (TestEnd test result) s =
     (if phase s = Collecting
      then Some (s\<lparr>tasks := tasks s @ [spawn e cfg (length (tasks s)) test result]\<rparr>)
      else None)"
| "fire e cfg (Resume i) s =
     (if i < length (tasks s) then
        (case tasks s ! i of
           Running (w # ws) \<Rightarrow> Some (s\<lparr>tasks := (tasks s)[i := Running ws], disk := disk s @ [w]\<rparr>)
         | _ \<Rightarrow> None)
      else None)"
| "fire e cfg (RunEnd runStatus runDuration) s =
     (if phase s = Collecting then Some (s\<lparr>phase := Awaiting runStatus runDuration\<rparr>) else None)"
| "fire e cfg Settle s =
     (case phase s of
        Awaiting runStatus runDuration \<Rightarrow>
          if Rejected \<in> set (tasks s) then Some (s\<lparr>phase := Failed\<rparr>)
          else if list_all (\<lambda>t. t = Running []) (tasks s) then
            (case onEnd e runStatus runDuration (cfg\<lparr>files := []\<rparr>) of
               Inl ex \<Rightarrow> Some (s\<lparr>phase := Failed\<rparr>)
             | Inr st' \<Rightarrow> Some (s\<lparr>phase := Rendered, disk := disk s @ files st'\<rparr>))
          else None
      | _ \<Rightarrow> None)"

fun schedule :: "env \<Rightarrow> reporter \<Rightarrow> event list \<Rightarrow> sched \<Rightarrow> sched option" where
  "schedule e cfg [] s = Some s"
| "schedule e cfg (ev # evs) s =
     (case fire e cfg ev s of None \<Rightarrow> None | Some s' \<Rightarrow> schedule e cfg evs s')"

definition startSched :: sched where
  "startSched = \<lparr>tasks = [], phase = Collecting, disk = []\<rparr>"

definition is_summary :: "written \<Rightarrow> bool" where
  "is_summary w = (case w of SummaryReport _ \<Rightarrow> True | _ \<Rightarrow> False)"

definition demo_schedule :: "event list" where
  "demo_schedule =
     [TestEnd (demo_test ''Home'' [demo_outcome passed [''home'']]) (demo_outcome passed [''home'']),
      TestEnd (demo_test ''Cart'' [demo_outcome passed [''cart'']]) (demo_outcome passed [''cart'']),
      Resume 1, RunEnd ''passed'' 1200, Resume 0, Resume 0, Resume 1, Settle]"

text \<open>What holds in every state of the scheduler: no task ever has a summary to render;
  once the summary is rendered every task is complete and the summary is the last file;
  before that no summary is on disk.\<close>

definition barrier_inv :: "sched \<Rightarrow> bool" where
  "barrier_inv s \<longleftrightarrow>
     (\<forall>t \<in> set (tasks s). \<forall>ws. t = Running ws \<longrightarrow> (\<forall>w \<in> set ws. \<not> is_summary w)) \<and>
     (if phase s = Rendered
      then list_all (\<lambda>t. t = Running []) (tasks s) \<and>
           (\<exists>pre f. disk s = pre @ [SummaryReport f] \<and> (\<forall>w \<in> set pre. \<not> is_summary w))
      else (\<forall>w \<in> set (disk s). \<not> is_summary w))"

section \<open>Properties of the scan aggregator\<close>

lemma scanSelectors_length:
  "length (snd (scanSelectors env anns v node sels (i, ts))) =
     length ts + length (filter (isVisible env) sels)"
  by (induction sels arbitrary: i ts) (auto simp: Let_def)

lemma scanNodes_length:
  "length (snd (scanNodes env anns v nodes acc)) =
     length (snd acc) + length (filter (isVisible env) (concat (map n_target nodes)))"
proof (induction nodes arbitrary: acc)
  case Nil
  then show ?case by simp
next
  case (Cons node nodes)
  obtain i ts where acc: "acc = (i, ts)" by (cases acc)
  show ?case
    by (simp add: Cons.IH acc scanSelectors_length)
qed

lemma scanTargets_length:
  "length (scanTargets env anns v) = length (filter (isVisible env) (all_selectors v))"
  by (simp add: scanTargets_def all_selectors_def scanNodes_length)

text \<open>
  Claim C5, as the code has it. The errors of a scan are the records built from the
  analyzer's violations, one each. A record's \<^verbatim>\<open>total\<close> is never below the number of its
  targets. It equals the number of targets as soon as one target was captured, in
  particular when the violation has a selector and every selector was visible. It falls
  back to the analyzer's node count only when no target at all was captured, which is the
  case when evidence capture was skipped for every selector.
\<close>

theorem total_count_of_record:
  "let err = buildError env anns v; targets = scanTargets env anns v in
     rd_errors (scanA11y env anns url vs) = Some (map (buildError env anns) vs) \<and>
     e_target err = Some targets \<and>
     (\<exists>n. e_total err = Some n \<and> int (length targets) \<le> n) \<and>
     (targets \<noteq> [] \<longrightarrow> e_total err = Some (int (length targets))) \<and>
     (all_selectors v \<noteq> [] \<and> (\<forall>s \<in> set (all_selectors v). isVisible env s)
        \<longrightarrow> e_total err = Some (int (length targets))) \<and>
     (targets = [] \<longrightarrow> e_total err = Some (int (length (v_nodes v)))) \<and>
     ((\<forall>s \<in> set (all_selectors v). \<not> isVisible env s) \<longrightarrow> targets = [])"
proof -
  have vis: "all_selectors v \<noteq> [] \<Longrightarrow> \<forall>s \<in> set (all_selectors v). isVisible env s
      \<Longrightarrow> scanTargets env anns v \<noteq> []"
    by (metis scanTargets_length filter_True length_0_conv)
  have hid: "\<forall>s \<in> set (all_selectors v). \<not> isVisible env s \<Longrightarrow> scanTargets env anns v = []"
    by (metis scanTargets_length filter_False list.size(3) length_0_conv)
  show ?thesis
    using vis hid by (auto simp: buildError_def scanA11y_def Let_def)
qed

text \<open>The theorem at work: two visible elements give a total of two with two targets;
  three hidden elements on three nodes give no target and the node count three.\<close>

theorem total_count_of_record_witness:
  "e_total (buildError (demo_scan_env\<lparr>isVisible := (\<lambda>_. True)\<rparr>) [] (demo_violation [''#a'', ''#b'']))
     = Some 2
   \<and> length (scanTargets (demo_scan_env\<lparr>isVisible := (\<lambda>_. True)\<rparr>) [] (demo_violation [''#a'', ''#b''])) = 2
   \<and> e_total (buildError demo_scan_env [] (demo_violation [''#x'', ''#y'', ''#z''])) = Some 3
   \<and> scanTargets demo_scan_env [] (demo_violation [''#x'', ''#y'', ''#z'']) = []"
proof -
  let ?env = "demo_scan_env\<lparr>isVisible := (\<lambda>_. True)\<rparr>"
  let ?v = "demo_violation [''#a'', ''#b'']"
  let ?w = "demo_violation [''#x'', ''#y'', ''#z'']"
  have sel: "all_selectors ?v = [''#a'', ''#b'']"
    by (simp add: all_selectors_def demo_violation_def)
  have len: "length (scanTargets ?env [] ?v) = 2"
    by (simp add: scanTargets_length sel)
  have "e_total (buildError ?env [] ?v) = Some (int (length (scanTargets ?env [] ?v)))"
    using total_count_of_record [of ?env "[]" ?v] sel by (simp add: Let_def)
  hence a: "e_total (buildError ?env [] ?v) = Some 2"
    using len by simp
  have hidden: "\<forall>s \<in> set (all_selectors ?w). \<not> isVisible demo_scan_env s"
    by (simp add: all_selectors_def demo_violation_def demo_scan_env_def)
  have none: "scanTargets demo_scan_env [] ?w = []"
    using total_count_of_record [of demo_scan_env "[]" ?w] hidden by (simp add: Let_def)
  have "e_total (buildError demo_scan_env [] ?w) = Some (int (length (v_nodes ?w)))"
    using total_count_of_record [of demo_scan_env "[]" ?w] none by (simp add: Let_def)
  hence b: "e_total (buildError demo_scan_env [] ?w) = Some 3"
    by (simp add: demo_violation_def)
  show ?thesis using a len b none by simp
qed

text \<open>The claim as written fails: with one visible and one hidden element, capture is
  skipped for the hidden one, yet the total is the number of targets, one, and not the
  node count, two.\<close>

theorem total_count_fallback_counterexample:
  "\<not> isVisible demo_scan_env ''#hidden''
   \<and> ''#hidden'' \<in> set (all_selectors (demo_violation [''#shown'', ''#hidden'']))
   \<and> length (v_nodes (demo_violation [''#shown'', ''#hidden''])) = 2
   \<and> length (scanTargets demo_scan_env [] (demo_violation [''#shown'', ''#hidden''])) = 1
   \<and> e_total (buildError demo_scan_env [] (demo_violation [''#shown'', ''#hidden''])) = Some 1
   \<and> e_total (buildError demo_scan_env [] (demo_violation [''#shown'', ''#hidden'']))
       \<noteq> Some (int (length (v_nodes (demo_violation [''#shown'', ''#hidden'']))))"
  by (simp add: demo_scan_env_def demo_violation_def all_selectors_def buildError_def
      scanTargets_def)

section \<open>Properties of the step merge\<close>








section \<open>Properties of the video copy\<close>

lemma waitReady_step:
  "attempts < 10 \<Longrightarrow> waitReady fs p c attempts =
     (if readyAt fs c p then (True, c) else waitReady fs p (Suc c) (Suc attempts))"
  by (simp add: readyAt_def split: fstat.splits)

lemma waitReady_stop: "\<not> attempts < 10 \<Longrightarrow> waitReady fs p c attempts = (False, c)"
  by simp

declare waitReady.simps [simp del]

lemma waitReady_spec:
  "attempts \<le> 10 \<Longrightarrow> waitReady fs p c attempts = (r, c') \<Longrightarrow>
     (r \<longrightarrow> readyAt fs c' p \<and> c' < c + (10 - attempts)) \<and>
     (\<not> r \<longrightarrow> c' = c + (10 - attempts)) \<and> c \<le> c' \<and>
     (\<forall>t. c \<le> t \<and> t < c' \<longrightarrow> \<not> readyAt fs t p)"
proof (induction "10 - attempts" arbitrary: attempts c)
  case 0
  hence "\<not> attempts < 10" by simp
  with 0 show ?case by (auto simp: waitReady_stop)
next
  case (Suc k)
  hence lt: "attempts < 10" by simp
  show ?case
  proof (cases "readyAt fs c p")
    case True
    with lt Suc.prems show ?thesis by (auto simp: waitReady_step)
  next
    case False
    hence rec: "waitReady fs p (Suc c) (Suc attempts) = (r, c')"
      using lt Suc.prems(2) by (simp add: waitReady_step)
    have k: "k = 10 - Suc attempts" using Suc.hyps(2) by simp
    have le: "Suc attempts \<le> 10" using lt by simp
    note ih = Suc.hyps(1)[OF k le rec]
    have "\<And>t. c \<le> t \<Longrightarrow> t < c' \<Longrightarrow> \<not> readyAt fs t p"
    proof -
      fix t assume "c \<le> t" "t < c'"
      show "\<not> readyAt fs t p"
      proof (cases "t = c")
        case True with False show ?thesis by simp
      next
        case False
        with \<open>c \<le> t\<close> have "Suc c \<le> t" by simp
        with ih \<open>t < c'\<close> show ?thesis by blast
      qed
    qed
    with ih lt show ?thesis by auto
  qed
qed

lemma waitReady_ready:
  assumes "waitReady fs p c 0 = (True, c')"
  shows "c \<le> c' \<and> c' \<le> c + 10 \<and> (\<exists>n. fs c' p = Size n \<and> 0 < n)"
  using waitReady_spec[OF _ assms] by (auto simp: readyAt_def split: fstat.splits)

lemma waitReady_not_ready:
  assumes "waitReady fs p c 0 = (False, c')"
  shows "c' = c + 10 \<and> givenUp fs p"
proof -
  from waitReady_spec[OF _ assms]
  have c': "c' = c + 10" and never: "\<forall>t. c \<le> t \<and> t < c' \<longrightarrow> \<not> readyAt fs t p"
    by auto
  have "\<forall>t<10. \<not> readyAt fs (c + t) p"
    using never c' by simp
  thus ?thesis using c' unfolding givenUp_def by blast
qed

lemma measuredUpTo_mono: "measuredUpTo fs p m \<Longrightarrow> m \<le> m' \<Longrightarrow> measuredUpTo fs p m'"
  unfolding measuredUpTo_def by (meson order_trans)

lemma selectVideo_spec:
  "selectVideo fs as (b, m, c) = (b', m', c') \<Longrightarrow>
     m \<le> m' \<and> c \<le> c' \<and> c' \<le> c + 10 * length (videoPaths as) \<and>
     ((b', m') = (b, m) \<or>
        (\<exists>p t n. b' = Some p \<and> p \<in> set (videoPaths as) \<and> fs t p = Size n \<and> 0 < n \<and> m' = int n)) \<and>
     (\<forall>p \<in> set (videoPaths as). givenUp fs p \<or> measuredUpTo fs p m')"
proof (induction as arbitrary: b m c)
  case Nil
  then show ?case by (simp add: videoPaths_def)
next
  case (Cons a as)
  show ?case
  proof (cases "\<exists>p. att_path a = Some p \<and> p \<noteq> []")
    case False
    hence vp: "videoPaths (a # as) = videoPaths as"
      by (auto simp: videoPaths_def split: option.splits)
    from False Cons.prems have "selectVideo fs as (b, m, c) = (b', m', c')"
      by (auto split: option.splits)
    from Cons.IH[OF this] show ?thesis by (simp add: vp)
  next
    case True
    then obtain p where p: "att_path a = Some p" "p \<noteq> []" by blast
    hence vp: "videoPaths (a # as) = p # videoPaths as"
      by (simp add: videoPaths_def)
    obtain r c1 where w: "waitReady fs p c 0 = (r, c1)" by (cases "waitReady fs p c 0")
    show ?thesis
    proof (cases r)
      case False
      with w have w': "waitReady fs p c 0 = (False, c1)" by simp
      from waitReady_not_ready[OF w'] have c1: "c1 = c + 10" and gu: "givenUp fs p" by auto
      from Cons.prems p w' have "selectVideo fs as (b, m, c1) = (b', m', c')"
        by simp
      from Cons.IH[OF this] gu c1 show ?thesis by (auto simp: vp)
    next
      case True
      with w have w': "waitReady fs p c 0 = (True, c1)" by simp
      from waitReady_ready[OF w'] obtain n where
        c1: "c \<le> c1" "c1 \<le> c + 10" and n: "fs c1 p = Size n" "0 < n"
        by auto
      show ?thesis
      proof (cases "int n > m")
        case True
        with Cons.prems p w' n have "selectVideo fs as (Some p, int n, c1) = (b', m', c')"
          by simp
        from Cons.IH[OF this] have ih: "int n \<le> m'" "c1 \<le> c'" "c' \<le> c1 + 10 * length (videoPaths as)"
          "(b', m') = (Some p, int n) \<or>
            (\<exists>p t n. b' = Some p \<and> p \<in> set (videoPaths as) \<and> fs t p = Size n \<and> 0 < n \<and> m' = int n)"
          "\<forall>p \<in> set (videoPaths as). givenUp fs p \<or> measuredUpTo fs p m'"
          by auto
        have mp: "measuredUpTo fs p m'"
          unfolding measuredUpTo_def using n ih(1) by blast
        have sel: "\<exists>q t k. b' = Some q \<and> q \<in> set (videoPaths (a # as)) \<and> fs t q = Size k \<and> 0 < k \<and> m' = int k"
          using ih(4) n by (auto simp: vp)
        show ?thesis using True ih c1 mp sel by (auto simp: vp)
      next
        case False
        with Cons.prems p w' n have "selectVideo fs as (b, m, c1) = (b', m', c')"
          by simp
        from Cons.IH[OF this] have ih: "m \<le> m'" "c1 \<le> c'" "c' \<le> c1 + 10 * length (videoPaths as)"
          "(b', m') = (b, m) \<or>
            (\<exists>p t n. b' = Some p \<and> p \<in> set (videoPaths as) \<and> fs t p = Size n \<and> 0 < n \<and> m' = int n)"
          "\<forall>p \<in> set (videoPaths as). givenUp fs p \<or> measuredUpTo fs p m'"
          by auto
        have mp: "measuredUpTo fs p m'"
          unfolding measuredUpTo_def using n ih(1) False by (metis linorder_not_less order_trans)
        show ?thesis using ih c1 mp by (auto simp: vp)
      qed
    qed
  qed
qed


lemma bestVideo_spec:
  assumes "bestVideo fs result = (best, maxSize, clock)"
  shows "clock \<le> 10 * length (videoPaths (videoAttachments result))"
    and "\<forall>p \<in> set (videoPaths (videoAttachments result)). givenUp fs p \<or> measuredUpTo fs p maxSize"
    and "best = None \<Longrightarrow> maxSize = - 1 \<and> (\<forall>p \<in> set (videoPaths (videoAttachments result)). givenUp fs p)"
    and "best = Some p \<Longrightarrow> p \<in> set (videoPaths (videoAttachments result)) \<and>
           (\<exists>t n. fs t p = Size n \<and> 0 < n \<and> maxSize = int n)"
proof -
  note s = selectVideo_spec[OF assms[unfolded bestVideo_def]]
  from s show "clock \<le> 10 * length (videoPaths (videoAttachments result))" by simp
  from s show all: "\<forall>p \<in> set (videoPaths (videoAttachments result)). givenUp fs p \<or> measuredUpTo fs p maxSize"
    by simp
  { assume "best = None"
    with s have m: "maxSize = - 1" by auto
    have "\<And>q. \<not> measuredUpTo fs q (- 1)" by (auto simp: measuredUpTo_def)
    with all m show "maxSize = - 1 \<and> (\<forall>p \<in> set (videoPaths (videoAttachments result)). givenUp fs p)"
      by blast }
  { assume "best = Some p"
    with s show "p \<in> set (videoPaths (videoAttachments result)) \<and>
           (\<exists>t n. fs t p = Size n \<and> 0 < n \<and> maxSize = int n)" by auto }
qed

lemma stable_const: "\<forall>t. fs t = fs 0 \<Longrightarrow> \<exists>f0. fs = (\<lambda>_. f0)"
  by (rule exI[of _ "fs 0"]) (simp add: fun_eq_iff)

lemma stable_givenUp: "\<forall>t. fs t = fs 0 \<Longrightarrow> givenUp fs p \<longleftrightarrow> \<not> readyAt fs 0 p"
proof -
  assume "\<forall>t. fs t = fs 0"
  then obtain f0 where fs: "fs = (\<lambda>_. f0)" using stable_const by blast
  show ?thesis
    unfolding fs givenUp_def readyAt_def by (metis zero_less_numeral)
qed

lemma stable_measured:
  "\<forall>t. fs t = fs 0 \<Longrightarrow>
     measuredUpTo fs p m \<longleftrightarrow> readyAt fs 0 p \<and> int (fileSize (fs 0 p)) \<le> m"
proof -
  assume "\<forall>t. fs t = fs 0"
  then obtain f0 where fs: "fs = (\<lambda>_. f0)" using stable_const by blast
  show ?thesis
    unfolding fs measuredUpTo_def readyAt_def fileSize_def
    by (cases "f0 p") auto
qed

lemma videoPaths_nonempty: "p \<in> set (videoPaths as) \<Longrightarrow> p \<noteq> []"
  by (auto simp: videoPaths_def split: option.splits if_splits)

lemma copyTestVideo_result:
  assumes "bestVideo fs result = (best, maxSize, clock)"
  shows "copyTestVideo bn ok fs result =
       (case best of None \<Rightarrow> [] | Some p \<Rightarrow> if fs clock p = Absent then [] else bn p)"
proof (cases best)
  case None
  with assms show ?thesis by (simp add: copyTestVideo_def)
next
  case (Some p)
  from bestVideo_spec(4)[OF assms Some] have "p \<noteq> []"
    using videoPaths_nonempty by blast
  with assms Some show ?thesis
    by (simp add: copyTestVideo_def copyToFolder_def or_str_def)
qed

lemma demo_best: "bestVideo demo_fs demo_video_result = (Some ''/videos/c.webm'', 2048, 10)"
  by code_simp

lemma demo_paths:
  "videoPaths (filter (\<lambda>a. att_name a = ''video'') (r_attachments demo_video_result)) =
     [''/videos/a.webm'', ''/videos/b.webm'', ''/videos/c.webm'']"
  by (simp add: videoPaths_def demo_video_result_def demo_video_def)

lemma videoPaths_mem:
  "p \<in> set (videoPaths as) \<longleftrightarrow> p \<noteq> [] \<and> (\<exists>a \<in> set as. att_path a = Some p)"
  by (induction as) (auto simp: videoPaths_def split: option.splits)

text \<open>
  Claim C8. The candidates are the non-empty paths of the attachments named \<open>video\<close>, and
  of no other attachment. Every candidate is either given up after ten looks in a row,
  one sleep apart, at which it was missing, unreadable or empty, or it was measured ready
  with a size of at most \<^verbatim>\<open>maxSize\<close>; the loop sleeps at most ten times per candidate.
  The selected video is the path of an attachment named \<open>video\<close> that was measured ready
  with exactly the size \<^verbatim>\<open>maxSize\<close>. When no candidate becomes ready the result is the
  empty string. The function returns a string in every case: a failing copy gives the
  base name. On a file system that does not change during the call, the selected video
  is a ready candidate of the largest size among the ready ones. Among videos of 0, 512
  and 2048 bytes the one of 2048 bytes is selected, also when the result carries a larger
  attachment that is not a video.
\<close>

theorem video_selection:
  "(let candidates = videoPaths (filter (\<lambda>a. att_name a = ''video'') (r_attachments result))
    in case bestVideo fs result of (best, maxSize, clock) \<Rightarrow>
      clock \<le> 10 * length candidates \<and>
      (\<forall>p \<in> set candidates. givenUp fs p \<or> measuredUpTo fs p maxSize) \<and>
      (case best of
         None \<Rightarrow>
           (\<forall>p \<in> set candidates. givenUp fs p) \<and>
           copyTestVideo bn ok fs result = []
       | Some p \<Rightarrow>
           (\<exists>a \<in> set (r_attachments result). att_name a = ''video'' \<and> att_path a = Some p) \<and>
           p \<in> set candidates \<and>
           (\<exists>t n. fs t p = Size n \<and> 0 < n \<and> maxSize = int n) \<and>
           copyTestVideo bn ok fs result = (if fs clock p = Absent then [] else bn p)) \<and>
      ((\<forall>t. fs t = fs 0) \<longrightarrow>
         (case best of
            None \<Rightarrow> \<forall>q \<in> set candidates. \<not> readyAt fs 0 q
          | Some p \<Rightarrow>
              readyAt fs 0 p \<and>
              (\<forall>q \<in> set candidates. readyAt fs 0 q \<longrightarrow> fileSize (fs 0 q) \<le> fileSize (fs 0 p)) \<and>
              copyTestVideo bn ok fs result = bn p)))
   \<and> fst (bestVideo demo_fs demo_video_result) = Some ''/videos/c.webm''"
proof -
  obtain best maxSize clock where bv: "bestVideo fs result = (best, maxSize, clock)"
    by (cases "bestVideo fs result")
  let ?paths = "videoPaths (filter (\<lambda>a. att_name a = ''video'') (r_attachments result))"
  note spec = bestVideo_spec[OF bv, unfolded videoAttachments_def]
  note copy = copyTestVideo_result[OF bv, of bn ok]
  have general: "(case best of
         None \<Rightarrow> (\<forall>p \<in> set ?paths. givenUp fs p) \<and> copyTestVideo bn ok fs result = []
       | Some p \<Rightarrow>
           (\<exists>a \<in> set (r_attachments result). att_name a = ''video'' \<and> att_path a = Some p) \<and>
           p \<in> set ?paths \<and> (\<exists>t n. fs t p = Size n \<and> 0 < n \<and> maxSize = int n) \<and>
           copyTestVideo bn ok fs result = (if fs clock p = Absent then [] else bn p))"
  proof (cases best)
    case None
    with spec(3) copy show ?thesis by simp
  next
    case (Some p)
    from spec(4)[OF Some] have mem: "p \<in> set ?paths" by blast
    hence "\<exists>a \<in> set (r_attachments result). att_name a = ''video'' \<and> att_path a = Some p"
      by (auto simp: videoPaths_mem)
    with Some spec(4) copy show ?thesis by simp
  qed
  have stable: "(case best of
            None \<Rightarrow> \<forall>q \<in> set ?paths. \<not> readyAt fs 0 q
          | Some p \<Rightarrow> readyAt fs 0 p \<and>
              (\<forall>q \<in> set ?paths. readyAt fs 0 q \<longrightarrow> fileSize (fs 0 q) \<le> fileSize (fs 0 p)) \<and>
              copyTestVideo bn ok fs result = bn p)"
    if st: "\<forall>t. fs t = fs 0"
  proof (cases best)
    case None
    with spec(3) show ?thesis by (simp add: stable_givenUp[OF st])
  next
    case (Some p)
    from spec(4)[OF Some] obtain t n where
      p: "p \<in> set ?paths" and n: "fs t p = Size n" "0 < n" "maxSize = int n"
      by blast
    from st n have n0: "fs 0 p = Size n" by metis
    from st have nc: "fs clock p = fs 0 p" by metis
    have rp: "readyAt fs 0 p" using n0 n(2) by (simp add: readyAt_def)
    have sz: "fileSize (fs 0 p) = n" using n0 by (simp add: fileSize_def)
    have "fileSize (fs 0 q) \<le> fileSize (fs 0 p)" if q: "q \<in> set ?paths" "readyAt fs 0 q" for q
    proof -
      from spec(2) q(1) have "givenUp fs q \<or> measuredUpTo fs q maxSize" by blast
      with q(2) have "measuredUpTo fs q maxSize" by (simp add: stable_givenUp[OF st])
      hence "int (fileSize (fs 0 q)) \<le> maxSize" by (simp add: stable_measured[OF st])
      thus ?thesis using n(3) sz by simp
    qed
    moreover have "copyTestVideo bn ok fs result = bn p"
      using copy Some nc n0 by simp
    ultimately show ?thesis using Some rp by simp
  qed
  have demo: "fst (bestVideo demo_fs demo_video_result) = Some ''/videos/c.webm''"
    by (simp add: demo_best)
  show ?thesis
    using spec(1) spec(2) general stable demo by (simp add: bv Let_def)
qed

text \<open>The theorem on three videos and a trace of 9000 bytes: the empty video is given up,
  the one of 512 bytes is measured below the maximum, the trace is no candidate, and the
  copy is named after the video of 2048 bytes.\<close>

theorem video_selection_witness:
  "bestVideo demo_fs demo_video_result = (Some ''/videos/c.webm'', 2048, 10)
   \<and> givenUp demo_fs ''/videos/a.webm''
   \<and> measuredUpTo demo_fs ''/videos/b.webm'' 2048
   \<and> \<not> measuredUpTo demo_fs ''/videos/trace.zip'' 2048
   \<and> \<not> givenUp demo_fs ''/videos/trace.zip''
   \<and> copyTestVideo demo_basename (\<lambda>_. True) demo_fs demo_video_result = ''c.webm''"
proof -
  have st: "\<forall>t. demo_fs t = demo_fs 0"
    by (simp add: demo_fs_def fun_eq_iff)
  note sel = video_selection [where fs = demo_fs and result = demo_video_result
      and bn = demo_basename and ok = "\<lambda>_. True"]
  have a: "givenUp demo_fs ''/videos/a.webm'' \<or> measuredUpTo demo_fs ''/videos/a.webm'' 2048"
    using sel by (simp add: demo_best demo_paths Let_def)
  have "\<not> measuredUpTo demo_fs ''/videos/a.webm'' 2048"
    by (simp add: measuredUpTo_def demo_fs_def)
  with a have ga: "givenUp demo_fs ''/videos/a.webm''" by simp
  have b: "givenUp demo_fs ''/videos/b.webm'' \<or> measuredUpTo demo_fs ''/videos/b.webm'' 2048"
    using sel by (simp add: demo_best demo_paths Let_def)
  have "\<not> givenUp demo_fs ''/videos/b.webm''"
    by (simp add: stable_givenUp[OF st]) (simp add: readyAt_def demo_fs_def)
  with b have mb: "measuredUpTo demo_fs ''/videos/b.webm'' 2048" by simp
  have nt: "\<not> measuredUpTo demo_fs ''/videos/trace.zip'' 2048"
    by (simp add: stable_measured[OF st]) (simp add: readyAt_def fileSize_def demo_fs_def)
  have gt: "\<not> givenUp demo_fs ''/videos/trace.zip''"
    by (simp add: stable_givenUp[OF st]) (simp add: readyAt_def demo_fs_def)
  have "copyTestVideo demo_basename (\<lambda>_. True) demo_fs demo_video_result
          = (if demo_fs 10 ''/videos/c.webm'' = Absent then []
             else demo_basename ''/videos/c.webm'')"
    using sel by (simp add: demo_best Let_def)
  hence c: "copyTestVideo demo_basename (\<lambda>_. True) demo_fs demo_video_result = ''c.webm''"
    by (simp add: demo_fs_def demo_basename_def)
  show ?thesis using demo_best ga mb nt gt c by simp
qed

section \<open>Properties of the reporter\<close>

lemma frame_refl [simp]: "frame st st"
  by (simp add: frame_def)

lemma frame_trans: "frame a b \<Longrightarrow> frame b c \<Longrightarrow> frame a c"
  by (simp add: frame_def)

lemma updGlobal_sel [simp]:
  "testIndex (updGlobal f st) = testIndex st"
  "outputFolder (updGlobal f st) = outputFolder st"
  "projectRoot (updGlobal f st) = projectRoot st"
  "opts (updGlobal f st) = opts st"
  "files (updGlobal f st) = files st"
  "browserSummaries (updGlobal f st) = browserSummaries st"
  "executionSummary (updGlobal f st) = f (executionSummary st)"
  by (simp_all add: updGlobal_def)

lemma updBrowser_sel [simp]:
  "testIndex (updBrowser b f st) = testIndex st"
  "outputFolder (updBrowser b f st) = outputFolder st"
  "projectRoot (updBrowser b f st) = projectRoot st"
  "opts (updBrowser b f st) = opts st"
  "files (updBrowser b f st) = files st"
  "executionSummary (updBrowser b f st) = executionSummary st"
  by (simp_all add: updBrowser_def split: option.splits)

lemma ensureBrowser_sel [simp]:
  "testIndex (ensureBrowser b st) = testIndex st"
  "outputFolder (ensureBrowser b st) = outputFolder st"
  "projectRoot (ensureBrowser b st) = projectRoot st"
  "opts (ensureBrowser b st) = opts st"
  "files (ensureBrowser b st) = files st"
  "executionSummary (ensureBrowser b st) = executionSummary st"
  by (simp_all add: ensureBrowser_def split: option.splits)

lemma updBrowser_None [simp]:
  "browserSummaries (updBrowser b f st) k = None \<longleftrightarrow> browserSummaries st k = None"
  by (simp add: updBrowser_def split: option.splits)

lemma ensureBrowser_None:
  "k \<in> set inheritedKeys \<Longrightarrow>
     browserSummaries (ensureBrowser b st) k = None \<longleftrightarrow> browserSummaries st k = None"
  by (auto simp: ensureBrowser_def split: option.splits)

lemma browserCounters_upd [simp]:
  "browserCounters (st\<lparr>files := fs\<rparr>) = browserCounters st"
  "browserCounters (st\<lparr>testIndex := k\<rparr>) = browserCounters st"
  "browserCounters (st\<lparr>projectRoot := r\<rparr>) = browserCounters st"
  by (simp_all add: browserCounters_def fun_eq_iff)

lemma browserCounters_updGlobal [simp]: "browserCounters (updGlobal f st) = browserCounters st"
  by (simp add: browserCounters_def fun_eq_iff)

lemma browserCounters_ensureBrowser [simp]:
  "browserCounters (ensureBrowser b st) = browserCounters st"
  by (auto simp: browserCounters_def ensureBrowser_def fun_eq_iff counters_def emptySummary_def
      split: option.splits)

lemma browserCounters_updBrowser_same:
  "(\<And>s. counters (f s) = counters s) \<Longrightarrow> browserCounters (updBrowser b f st) = browserCounters st"
  by (auto simp: browserCounters_def updBrowser_def fun_eq_iff split: option.splits)

lemma browserCounters_updBrowser_ensure:
  "(\<And>s. counters (f s) = h (counters s)) \<Longrightarrow>
   browserSummaries st b \<noteq> None \<or> b \<notin> set inheritedKeys \<Longrightarrow>
     browserCounters (updBrowser b f (ensureBrowser b st)) =
       (browserCounters st)(b := h (browserCounters st b))"
  by (auto simp: browserCounters_def updBrowser_def ensureBrowser_def fun_eq_iff counters_def
      emptySummary_def split: option.splits)

lemma updBrowser_inherited:
  "browserSummaries st b = None \<Longrightarrow> b \<in> set inheritedKeys \<Longrightarrow>
     updBrowser b f (ensureBrowser b st) = st"
  by (simp add: updBrowser_def ensureBrowser_def)

lemma frame_updBrowser:
  "(\<And>s. counters (f s) = counters s) \<Longrightarrow> frame st (updBrowser b f st)"
  by (simp add: frame_def browserCounters_updBrowser_same)

lemma frame_ensureBrowser [simp]: "frame st (ensureBrowser b st)"
  by (simp add: frame_def ensureBrowser_None)

lemma frame_updGlobal:
  "counters (f (executionSummary st)) = counters (executionSummary st) \<Longrightarrow>
   ts_totalFlaky (f (executionSummary st)) = ts_totalFlaky (executionSummary st) \<Longrightarrow>
   ts_groupedResults (f (executionSummary st)) = ts_groupedResults (executionSummary st) \<Longrightarrow>
   frame st (updGlobal f st)"
  by (simp add: frame_def)

lemma aggregateError_frame: "frame st (aggregateError b err st)"
  unfolding aggregateError_def
  by (rule frame_trans[OF frame_updBrowser frame_updGlobal]) (simp_all add: counters_def)

lemma aggregateError_sel [simp]:
  "files (aggregateError b err st) = files st"
  "ts_wcagErrors (executionSummary (aggregateError b err st)) =
     addWcag err (ts_wcagErrors (executionSummary st))"
  by (simp_all add: aggregateError_def)

lemma fold_aggregateError:
  "frame st (fold (aggregateError b) errs st) \<and>
   files (fold (aggregateError b) errs st) = files st \<and>
   ts_wcagErrors (executionSummary (fold (aggregateError b) errs st)) =
     fold addWcag errs (ts_wcagErrors (executionSummary st))"
proof (induction errs arbitrary: st)
  case Nil
  show ?case by simp
next
  case (Cons err errs)
  from Cons[of "aggregateError b err st"] aggregateError_frame[of st b err]
  show ?case by (auto intro: frame_trans)
qed

lemma stampReportData_sel [simp]:
  "rd_errors (stampReportData os video rd) = rd_errors rd"
  "rd_pageKey (stampReportData os video rd) = rd_pageKey rd"
  by (simp_all add: stampReportData_def Let_def split: option.splits prod.splits)

lemma scanErrorCount_Nil [simp]: "scanErrorCount [] = 0"
  by (simp add: scanErrorCount_def)

lemma processScan_Inr:
  assumes "processScan e title folder b video n i rd (st, acc) = Inr (st', acc')"
  shows "renderOk e ''accessibility-report.html'' (pathJoin folder (scanReportName title n (i, rd)))
    \<and> files st' = files st @ [scanReportOf (opts st) video title folder n (i, rd)]
    \<and> frame st st'
    \<and> ts_wcagErrors (executionSummary st') =
           fold addWcag (payloadErrors rd) (ts_wcagErrors (executionSummary st))
    \<and> acc' = acc\<lparr>a11yReportPath := Some (scanReportName title n (i, rd)),
                    a11yErrorCount := a11yErrorCount acc + scanErrorCount (payloadErrors rd),
                    aggregatedA11yErrors := aggregatedA11yErrors acc @ payloadErrors rd\<rparr>"
proof -
  let ?name = "scanReportName title n (i, rd)"
  let ?file = "pathJoin folder ?name"
  let ?rd = "stampReportData (opts st) video rd"
  let ?st1 = "st\<lparr>files := files st @ [ScanReport ?file ?rd]\<rparr>"
  have ok: "renderOk e ''accessibility-report.html'' ?file"
    using assms
    by (auto simp: processScan_def Let_def render_def scanReportName_def split: if_splits)
  have st1_frame: "frame st ?st1" by (simp add: frame_def)
  let ?st2 = "ensureBrowser b ?st1"
  show ?thesis
  proof (cases "payloadErrors rd = []")
    case True
    hence "st' = ?st2 \<and> acc' = acc\<lparr>a11yReportPath := Some ?name\<rparr>"
      using assms ok
      by (auto simp: processScan_def Let_def render_def scanReportName_def payloadErrors_def
          split: option.splits if_splits)
    thus ?thesis
      using True ok frame_trans[OF st1_frame frame_ensureBrowser[of ?st1 b]]
      by (simp add: scanReportOf_def)
  next
    case False
    let ?errs = "payloadErrors rd"
    let ?n = "scanErrorCount ?errs"
    let ?st3 = "fold (aggregateError b) ?errs ?st2"
    let ?st4 = "updBrowser b (\<lambda>s. s\<lparr>ts_totalA11yErrorCount := ts_totalA11yErrorCount s + ?n\<rparr>) ?st3"
    let ?st5 = "updGlobal (\<lambda>g. g\<lparr>ts_totalA11yErrorCount := ts_totalA11yErrorCount g + ?n\<rparr>) ?st4"
    from False have "st' = ?st5 \<and>
        acc' = acc\<lparr>a11yReportPath := Some ?name,
                   a11yErrorCount := a11yErrorCount acc + ?n,
                   aggregatedA11yErrors := aggregatedA11yErrors acc @ ?errs\<rparr>"
      using assms ok
      by (auto simp: processScan_def Let_def render_def scanReportName_def payloadErrors_def
          split: option.splits if_splits)
    moreover have "frame st ?st5"
    proof -
      have "frame ?st2 ?st3" using fold_aggregateError by blast
      moreover have "frame ?st3 ?st4" by (rule frame_updBrowser) (simp add: counters_def)
      moreover have "frame ?st4 ?st5" by (rule frame_updGlobal) (simp_all add: counters_def)
      ultimately show ?thesis
        using st1_frame frame_ensureBrowser[of ?st1 b] by (blast intro: frame_trans)
    qed
    moreover have "files ?st5 = files st @ [ScanReport ?file ?rd]"
      using fold_aggregateError[of ?st2 b ?errs] by simp
    moreover have "ts_wcagErrors (executionSummary ?st5) =
        fold addWcag ?errs (ts_wcagErrors (executionSummary st))"
      using fold_aggregateError[of ?st2 b ?errs] by simp
    ultimately show ?thesis
      using ok by (simp add: scanReportOf_def)
  qed
qed

lemma loadedOf_Nil [simp]: "loadedOf e [] = []"
  by (simp add: loadedOf_def)

lemma failureLogs_Nil [simp]: "failureLogs e [] = []"
  by (simp add: failureLogs_def)

lemma loadedOf_Cons:
  "loadedOf e ((i, src) # rest) =
     (case loadReportData e src of Loaded rd \<Rightarrow> [(i, rd)] | _ \<Rightarrow> []) @ loadedOf e rest"
  by (simp add: loadedOf_def)

lemma failureLogs_Cons:
  "failureLogs e ((i, src) # rest) =
     (case loadReportData e src of
        ParseFailed ex \<Rightarrow>
          [ansiToHtml e (''[SnapAlly] Internal error parsing accessibility data from ''
                           @ source_type src @ '': '' @ ex)]
      | _ \<Rightarrow> []) @ failureLogs e rest"
  by (simp add: failureLogs_def)

lemma processSources_Inr:
  assumes "processSources e title folder b video n isrcs (st, acc) = Inr (st', acc')"
  shows "files st' = files st @ map (scanReportOf (opts st) video title folder n) (loadedOf e isrcs)
     \<and> frame st st'
     \<and> ts_wcagErrors (executionSummary st') =
         fold addWcag (concat (map (\<lambda>ird. payloadErrors (snd ird)) (loadedOf e isrcs)))
           (ts_wcagErrors (executionSummary st))
     \<and> a11yReportPath acc' = lastReport title n (loadedOf e isrcs) (a11yReportPath acc)
     \<and> a11yErrorCount acc' = a11yErrorCount acc
         + sum_list (map (\<lambda>ird. scanErrorCount (payloadErrors (snd ird))) (loadedOf e isrcs))
     \<and> aggregatedA11yErrors acc' = aggregatedA11yErrors acc
         @ concat (map (\<lambda>ird. payloadErrors (snd ird)) (loadedOf e isrcs))
     \<and> errorLogs acc' = errorLogs acc @ failureLogs e isrcs
     \<and> (\<forall>ird \<in> set (loadedOf e isrcs).
           renderOk e ''accessibility-report.html'' (pathJoin folder (scanReportName title n ird)))
     \<and> (\<forall>isrc \<in> set isrcs. loadReportData e (snd isrc) \<noteq> LoadedOther)"
  using assms
proof (induction isrcs arbitrary: st acc)
  case Nil
  then show ?case by (simp add: lastReport_def)
next
  case (Cons x isrcs)
  obtain i src where x: "x = (i, src)" by (cases x)
  show ?case
  proof (cases "loadReportData e src")
    case Skipped
    with Cons.prems x have "processSources e title folder b video n isrcs (st, acc) = Inr (st', acc')"
      by simp
    from Cons.IH[OF this] show ?thesis
      by (simp add: x loadedOf_Cons failureLogs_Cons Skipped)
  next
    case (ParseFailed ex)
    let ?acc1 = "acc\<lparr>errorLogs := errorLogs acc @
                [ansiToHtml e (''[SnapAlly] Internal error parsing accessibility data from ''
                                 @ source_type src @ '': '' @ ex)]\<rparr>"
    from Cons.prems x ParseFailed
    have "processSources e title folder b video n isrcs (st, ?acc1) = Inr (st', acc')"
      by simp
    from Cons.IH[OF this] show ?thesis
      by (simp add: x loadedOf_Cons failureLogs_Cons ParseFailed)
  next
    case LoadedOther
    with Cons.prems x show ?thesis by simp
  next
    case (Loaded rd)
    from Cons.prems x Loaded obtain st1 acc1 where
      scan: "processScan e title folder b video n i rd (st, acc) = Inr (st1, acc1)" and
      rest: "processSources e title folder b video n isrcs (st1, acc1) = Inr (st', acc')"
      by (auto split: sum.splits)
    note s = processScan_Inr[OF scan]
    note r = Cons.IH[OF rest]
    from s have o: "opts st1 = opts st" by (simp add: frame_def)
    have fr: "frame st st'" using s r by (blast intro: frame_trans)
    show ?thesis
      using s r fr
      by (simp add: x loadedOf_Cons failureLogs_Cons Loaded o lastReport_def)
  qed
qed

lemma counters_bump:
  "counters (countStatus s (incTotal sm)) = bump s (counters sm)"
  "counters (incTotal (countStatus s (countFlaky fl sm))) = bump s (counters sm)"
  by (cases s; simp add: counters_def bump_def countStatus_def incTotal_def countFlaky_def)+

lemma countFlaky_sel [simp]:
  "ts_totalFlaky (incTotal (countStatus s (countFlaky fl sm))) = ts_totalFlaky sm + (if fl then 1 else 0)"
  "ts_wcagErrors (incTotal (countStatus s (countFlaky fl sm))) = ts_wcagErrors sm"
  "ts_groupedResults (incTotal (countStatus s (countFlaky fl sm))) = ts_groupedResults sm"
  by (cases s; simp add: countStatus_def incTotal_def countFlaky_def)+

lemma finishTest_Inr:
  assumes "finishTest e test result title tfn fileGroup b video shots atts (st0, acc) = Inr st'"
  shows "renderOk e ''test-execution-report.html''
           (pathJoin (pathJoin (outputFolder st0) tfn) (''execution-'' @ title @ ''.html''))
    \<and> files st' = files st0 @
         [ExecutionReport (pathJoin (pathJoin (outputFolder st0) tfn) (''execution-'' @ title @ ''.html''))
            (testStatsOf e test result (testIndex st0) title tfn fileGroup b video shots atts acc)]
    \<and> (\<exists>rs. ts_groupedResults (executionSummary st0) fileGroup = Some rs
          \<and> ts_groupedResults (executionSummary st') =
              (ts_groupedResults (executionSummary st0))(fileGroup \<mapsto>
                 rs @ [testStatsOf e test result (testIndex st0) title tfn fileGroup b video
                         shots atts acc]))
    \<and> counters (executionSummary st') = bump (r_status result) (counters (executionSummary st0))
    \<and> browserCounters st' =
         (if browserSummaries st0 b = None \<and> b \<in> set inheritedKeys then browserCounters st0
          else (browserCounters st0)(b := bump (r_status result) (browserCounters st0 b)))
    \<and> (\<forall>k \<in> set inheritedKeys. browserSummaries st' k = None \<longleftrightarrow> browserSummaries st0 k = None)
    \<and> ts_totalFlaky (executionSummary st') =
         ts_totalFlaky (executionSummary st0) + (if isFlaky test result then 1 else 0)
    \<and> ts_wcagErrors (executionSummary st') = ts_wcagErrors (executionSummary st0)
    \<and> testIndex st' = testIndex st0 \<and> outputFolder st' = outputFolder st0
    \<and> projectRoot st' = projectRoot st0 \<and> opts st' = opts st0"
proof -
  let ?stats = "testStatsOf e test result (testIndex st0) title tfn fileGroup b video shots atts acc"
  let ?file = "pathJoin (pathJoin (outputFolder st0) tfn) (''execution-'' @ title @ ''.html'')"
  let ?st2 = "updBrowser b (\<lambda>s. countStatus (r_status result) (incTotal s)) (ensureBrowser b st0)"
  from assms obtain st3 where
    push: "pushResult fileGroup ?stats ?st2 = Inr st3" and
    rend: "render e ''test-execution-report.html'' ?file (ExecutionReport ?file ?stats)
             (updGlobal (\<lambda>g. incTotal (countStatus (r_status result)
                                     (countFlaky (isFlaky test result) g))) st3) = Inr st'"
    by (auto simp: finishTest_def Let_def split: sum.splits)
  from push obtain rs where
    rs: "ts_groupedResults (executionSummary st0) fileGroup = Some rs" and
    st3: "st3 = updGlobal (\<lambda>g. g\<lparr>ts_groupedResults := (ts_groupedResults g)(fileGroup \<mapsto> rs @ [?stats])\<rparr>) ?st2"
    by (auto simp: pushResult_def split: option.splits)
  let ?st4 = "updGlobal (\<lambda>g. incTotal (countStatus (r_status result)
                                     (countFlaky (isFlaky test result) g))) st3"
  from rend have ok: "renderOk e ''test-execution-report.html'' ?file"
    and st': "st' = ?st4\<lparr>files := files ?st4 @ [ExecutionReport ?file ?stats]\<rparr>"
    by (auto simp: render_def split: if_splits)
  have bc: "browserCounters st' =
         (if browserSummaries st0 b = None \<and> b \<in> set inheritedKeys then browserCounters st0
          else (browserCounters st0)(b := bump (r_status result) (browserCounters st0 b)))"
  proof (cases "browserSummaries st0 b = None \<and> b \<in> set inheritedKeys")
    case True
    hence "?st2 = st0" by (simp add: updBrowser_inherited)
    thus ?thesis unfolding st' st3 using True by simp
  next
    case False
    hence own: "browserSummaries st0 b \<noteq> None \<or> b \<notin> set inheritedKeys" by auto
    have "browserCounters ?st2 = (browserCounters st0)(b := bump (r_status result) (browserCounters st0 b))"
      by (rule browserCounters_updBrowser_ensure[OF _ own]) (simp add: counters_bump)
    thus ?thesis unfolding st' st3 using own by auto
  qed
  have nn: "\<forall>k \<in> set inheritedKeys. browserSummaries st' k = None \<longleftrightarrow> browserSummaries st0 k = None"
    unfolding st' st3 by (simp add: ensureBrowser_None)
  have cnt: "counters (executionSummary st') = bump (r_status result) (counters (executionSummary st0))"
    unfolding st' st3 by (simp add: counters_bump) (simp add: counters_def)
  have rest: "renderOk e ''test-execution-report.html'' ?file
    \<and> files st' = files st0 @ [ExecutionReport ?file ?stats]
    \<and> (\<exists>rs. ts_groupedResults (executionSummary st0) fileGroup = Some rs
          \<and> ts_groupedResults (executionSummary st') =
              (ts_groupedResults (executionSummary st0))(fileGroup \<mapsto> rs @ [?stats]))
    \<and> ts_totalFlaky (executionSummary st') =
         ts_totalFlaky (executionSummary st0) + (if isFlaky test result then 1 else 0)
    \<and> ts_wcagErrors (executionSummary st') = ts_wcagErrors (executionSummary st0)
    \<and> testIndex st' = testIndex st0 \<and> outputFolder st' = outputFolder st0
    \<and> projectRoot st' = projectRoot st0 \<and> opts st' = opts st0"
    using ok rs unfolding st' st3 by simp
  show ?thesis
    using rest bc nn cnt by blast
qed

lemma ensureGroup_sel [simp]:
  "testIndex (ensureGroup g st) = testIndex st"
  "outputFolder (ensureGroup g st) = outputFolder st"
  "projectRoot (ensureGroup g st) = projectRoot st"
  "opts (ensureGroup g st) = opts st"
  "files (ensureGroup g st) = files st"
  "browserSummaries (ensureGroup g st) = browserSummaries st"
  "counters (executionSummary (ensureGroup g st)) = counters (executionSummary st)"
  "ts_totalFlaky (executionSummary (ensureGroup g st)) = ts_totalFlaky (executionSummary st)"
  "ts_wcagErrors (executionSummary (ensureGroup g st)) = ts_wcagErrors (executionSummary st)"
  "browserCounters (ensureGroup g st) = browserCounters st"
  by (simp_all add: ensureGroup_def counters_def browserCounters_def fun_eq_iff split: option.splits)

lemma groupOf_testIndex [simp]: "groupOf (st\<lparr>testIndex := k\<rparr>) g = groupOf st g"
  by (simp add: groupOf_def)

lemma ensureGroup_group:
  "ts_groupedResults (executionSummary (ensureGroup g st)) g = Some rs \<Longrightarrow>
     rs = groupOf st g \<and>
     ts_groupedResults (executionSummary (ensureGroup g st)) =
       (ts_groupedResults (executionSummary st))(g \<mapsto> groupOf st g)"
  by (auto simp: ensureGroup_def groupOf_def fun_eq_iff split: option.splits if_splits)

lemma processTestResult_Inr:
  assumes "processTestResult e test result st = Inr st'"
  shows "rendersOk e st test result
    \<and> files st' = files st @ scanReports e st test result
         @ [ExecutionReport (executionReportFile st test) (testRecord e st test result)]
    \<and> ts_groupedResults (executionSummary st') =
         (ts_groupedResults (executionSummary st))(fileGroupOf e st test \<mapsto>
            groupOf st (fileGroupOf e st test) @ [testRecord e st test result])
    \<and> counters (executionSummary st') = bump (r_status result) (counters (executionSummary st))
    \<and> browserCounters st' =
         (if browserSummaries st (browserOf test) = None \<and> browserOf test \<in> set inheritedKeys
          then browserCounters st
          else (browserCounters st)(browserOf test :=
                  bump (r_status result) (browserCounters st (browserOf test))))
    \<and> (\<forall>k \<in> set inheritedKeys. browserSummaries st' k = None \<longleftrightarrow> browserSummaries st k = None)
    \<and> ts_totalFlaky (executionSummary st') =
         ts_totalFlaky (executionSummary st) + (if isFlaky test result then 1 else 0)
    \<and> ts_wcagErrors (executionSummary st') =
         fold addWcag (testErrors e test result) (ts_wcagErrors (executionSummary st))
    \<and> testIndex st' = testIndex st + 1 \<and> outputFolder st' = outputFolder st
    \<and> projectRoot st' = projectRoot st \<and> opts st' = opts st
    \<and> (\<forall>src \<in> set (a11yDataSources test result). loadReportData e src \<noteq> LoadedOther)
    \<and> copyScreenshots e result \<noteq> None \<and> copyPngAttachments e result \<noteq> None
    \<and> copyAllOtherAttachments e result \<noteq> None"
proof -
  let ?title = "sanitizeTitle (tc_title test)"
  let ?tfn = "testFolderName st test"
  let ?folder = "testResultsFolder st test"
  let ?fg = "fileGroupOf e st test"
  let ?b = "browserOf test"
  let ?video = "videoOf e result"
  let ?srcs = "a11yDataSources test result"
  let ?st2 = "ensureGroup ?fg (st\<lparr>testIndex := testIndex st + 1\<rparr>)"
  let ?acc0 = "\<lparr>a11yReportPath = None, a11yErrorCount = 0, aggregatedA11yErrors = [],
                  errorLogs = errorLogsOf e result\<rparr>"
  from assms obtain shots pngs others st3 acc3 where
    shots: "copyScreenshots e result = Some shots" and
    pngs: "copyPngAttachments e result = Some pngs" and
    others: "copyAllOtherAttachments e result = Some others" and
    loop: "processSources e ?title ?folder ?b ?video (length ?srcs) (indexedSources test result)
             (?st2, ?acc0) = Inr (st3, acc3)" and
    fin: "finishTest e test result ?title ?tfn ?fg ?b ?video shots (pngs @ others) (st3, acc3) = Inr st'"
    by (auto simp: processTestResult_def beginTask_def continueTask_def Let_def testFolderName_def
        testResultsFolder_def fileGroupOf_def browserOf_def videoOf_def indexedSources_def
        split: sum.splits option.splits)
  note l = processSources_Inr[OF loop]
  note f = finishTest_Inr[OF fin]
  from l have fr: "frame ?st2 st3" by blast
  from f obtain rs0 where rs0: "ts_groupedResults (executionSummary st3) ?fg = Some rs0" by blast
  with fr have "ts_groupedResults (executionSummary ?st2) ?fg = Some rs0" by (simp add: frame_def)
  note eg = ensureGroup_group[OF this]
  from fr eg have st3: "testIndex st3 = testIndex st + 1" "outputFolder st3 = outputFolder st"
    "projectRoot st3 = projectRoot st" "opts st3 = opts st"
    "counters (executionSummary st3) = counters (executionSummary st)"
    "ts_totalFlaky (executionSummary st3) = ts_totalFlaky (executionSummary st)"
    "browserCounters st3 = browserCounters st"
    "ts_groupedResults (executionSummary st3) =
       (ts_groupedResults (executionSummary st))(?fg \<mapsto> groupOf st ?fg)"
    by (simp_all add: frame_def)
  from fr have nn3: "\<forall>k \<in> set inheritedKeys. browserSummaries st3 k = None \<longleftrightarrow> browserSummaries st k = None"
    by (simp add: frame_def)
  have acc3: "acc3 = finalAcc e test result"
    using l by (simp add: finalAcc_def loadedPayloads_def testErrors_def)
  have files3: "files st3 = files st @ scanReports e st test result"
    using l by (simp add: scanReports_def loadedPayloads_def)
  have stats: "testStatsOf e test result (testIndex st3) ?title ?tfn ?fg ?b ?video shots (pngs @ others) acc3
      = testRecord e st test result"
    by (simp add: testRecord_def st3 acc3 screenshotsOf_def attachmentsOf_def shots pngs others)
  have fpath: "pathJoin (pathJoin (outputFolder st3) ?tfn) (''execution-'' @ ?title @ ''.html'')
      = executionReportFile st test"
    by (simp add: executionReportFile_def testResultsFolder_def st3)
  note f' = f[unfolded stats fpath]
  have ok: "rendersOk e st test result"
    using l f' unfolding rendersOk_def scanReports_def loadedPayloads_def
    by (auto simp: scanReportOf_def)
  have wc: "ts_wcagErrors (executionSummary st') =
         fold addWcag (testErrors e test result) (ts_wcagErrors (executionSummary st))"
    using l f' by (simp add: testErrors_def loadedPayloads_def)
  from f' obtain rs where
    rs: "ts_groupedResults (executionSummary st3) ?fg = Some rs" and
    g': "ts_groupedResults (executionSummary st') =
          (ts_groupedResults (executionSummary st3))(?fg \<mapsto> rs @ [testRecord e st test result])"
    by blast
  from rs have "rs = groupOf st ?fg" by (simp add: st3)
  with g' have grp: "ts_groupedResults (executionSummary st') =
         (ts_groupedResults (executionSummary st))(?fg \<mapsto> groupOf st ?fg @ [testRecord e st test result])"
    by (simp add: st3)
  have bc: "browserCounters st' =
         (if browserSummaries st ?b = None \<and> ?b \<in> set inheritedKeys then browserCounters st
          else (browserCounters st)(?b := bump (r_status result) (browserCounters st ?b)))"
  proof -
    from f' have "browserCounters st' =
         (if browserSummaries st3 ?b = None \<and> ?b \<in> set inheritedKeys then browserCounters st3
          else (browserCounters st3)(?b := bump (r_status result) (browserCounters st3 ?b)))"
      by blast
    moreover have "(browserSummaries st3 ?b = None \<and> ?b \<in> set inheritedKeys)
        \<longleftrightarrow> (browserSummaries st ?b = None \<and> ?b \<in> set inheritedKeys)"
      using nn3 by blast
    ultimately show ?thesis by (simp add: st3)
  qed
  have nn: "\<forall>k \<in> set inheritedKeys. browserSummaries st' k = None \<longleftrightarrow> browserSummaries st k = None"
    using f' nn3 by simp
  have other: "\<forall>src \<in> set ?srcs. loadReportData e src \<noteq> LoadedOther"
  proof
    fix src assume "src \<in> set ?srcs"
    then obtain i where "i < length ?srcs" "?srcs ! i = src"
      by (auto simp: in_set_conv_nth)
    hence "(i, src) \<in> set (indexedSources test result)"
      by (simp add: indexedSources_def in_set_enumerate_eq)
    with l have "loadReportData e (snd (i, src)) \<noteq> LoadedOther" by blast
    thus "loadReportData e src \<noteq> LoadedOther" by simp
  qed
  have scal: "counters (executionSummary st') = bump (r_status result) (counters (executionSummary st))
    \<and> ts_totalFlaky (executionSummary st') =
         ts_totalFlaky (executionSummary st) + (if isFlaky test result then 1 else 0)
    \<and> testIndex st' = testIndex st + 1 \<and> outputFolder st' = outputFolder st
    \<and> projectRoot st' = projectRoot st \<and> opts st' = opts st
    \<and> files st' = files st @ scanReports e st test result
         @ [ExecutionReport (executionReportFile st test) (testRecord e st test result)]"
    using f' by (simp add: st3 files3)
  show ?thesis
    using ok wc grp bc nn other scal shots pngs others by simp
qed

lemma runTests_Inr:
  assumes "runTests e events st = Inr st'"
  shows "counters (executionSummary st') =
           fold bump (map r_status (resultsOf events)) (counters (executionSummary st))
    \<and> (\<forall>b. b \<notin> set inheritedKeys \<longrightarrow> browserCounters st' b =
           fold bump (map r_status (resultsOfBrowser b events)) (browserCounters st b))
    \<and> (\<forall>k \<in> set inheritedKeys. browserSummaries st' k = None \<longleftrightarrow> browserSummaries st k = None)
    \<and> ts_wcagErrors (executionSummary st') =
         fold addWcag (runErrors e events) (ts_wcagErrors (executionSummary st))
    \<and> testIndex st' = testIndex st + length events"
  using assms
proof (induction events arbitrary: st)
  case Nil
  then show ?case by (simp add: resultsOf_def resultsOfBrowser_def runErrors_def)
next
  case (Cons ev events)
  obtain test result where ev: "ev = (test, result)" by (cases ev)
  from Cons.prems ev obtain st1 where
    one: "processTestResult e test result st = Inr st1" and
    rest: "runTests e events st1 = Inr st'"
    by (auto split: sum.splits)
  note p = processTestResult_Inr[OF one]
  note r = Cons.IH[OF rest]
  have b1: "browserCounters st1 b =
      (if browserOf test = b then bump (r_status result) (browserCounters st b)
       else browserCounters st b)" if "b \<notin> set inheritedKeys" for b
    using p that by auto
  have bc: "browserCounters st' b =
           fold bump (map r_status (resultsOfBrowser b (ev # events))) (browserCounters st b)"
    if "b \<notin> set inheritedKeys" for b
    using r b1[OF that] that by (simp add: ev resultsOfBrowser_def)
  have rest': "counters (executionSummary st') =
           fold bump (map r_status (resultsOf (ev # events))) (counters (executionSummary st))
    \<and> (\<forall>k \<in> set inheritedKeys. browserSummaries st' k = None \<longleftrightarrow> browserSummaries st k = None)
    \<and> ts_wcagErrors (executionSummary st') =
         fold addWcag (runErrors e (ev # events)) (ts_wcagErrors (executionSummary st))
    \<and> testIndex st' = testIndex st + length (ev # events)"
    using p r by (simp add: ev resultsOf_def runErrors_def)
  show ?case using bc rest' by blast
qed

lemma fold_bump:
  "fold bump ss (t, p, f, k) =
     (t + length ss, p + length (filter (\<lambda>s. s = passed) ss),
      f + length (filter (\<lambda>s. s = failed) ss), k + length (filter (\<lambda>s. s = skipped) ss))"
  by (induction ss arbitrary: t p f k) (auto simp: bump_def)

lemma addWcag_countOf:
  "rule \<notin> set inheritedKeys \<Longrightarrow>
     countOf (addWcag err m) rule = countOf m rule + (if e_id err = rule then or0 (e_total err) else 0)"
  by (auto simp: countOf_def addWcag_def split: option.splits)

lemma addWcag_dom:
  "dom (addWcag err m) =
     (if m (e_id err) = None \<and> e_id err \<in> set inheritedKeys then dom m
      else insert (e_id err) (dom m))"
  by (auto simp: addWcag_def split: option.splits)

lemma fold_addWcag_countOf:
  "rule \<notin> set inheritedKeys \<Longrightarrow>
     countOf (fold addWcag errs m) rule = countOf m rule + ruleTotal rule errs"
  by (induction errs arbitrary: m) (simp_all add: ruleTotal_def addWcag_countOf)

lemma fold_addWcag_dom:
  "dom m \<inter> set inheritedKeys = {} \<Longrightarrow>
     dom (fold addWcag errs m) = dom m \<union> (e_id ` set errs - set inheritedKeys)"
proof (induction errs arbitrary: m)
  case Nil
  show ?case by simp
next
  case (Cons err errs)
  have d: "dom (addWcag err m) = dom m \<union> ({e_id err} - set inheritedKeys)"
    using Cons.prems by (auto simp: addWcag_dom)
  hence "dom (addWcag err m) \<inter> set inheritedKeys = {}"
    using Cons.prems by auto
  from Cons.IH[OF this] d show ?case by auto
qed

lemma initial_state [simp]:
  "counters (executionSummary (onBegin root (newReporter os folder))) = (0, 0, 0, 0)"
  "browserCounters (onBegin root (newReporter os folder)) b = (0, 0, 0, 0)"
  "browserSummaries (onBegin root (newReporter os folder)) b = None"
  "ts_wcagErrors (executionSummary (onBegin root (newReporter os folder))) = Map.empty"
  "ts_totalFlaky (executionSummary (onBegin root (newReporter os folder))) = 0"
  "files (onBegin root (newReporter os folder)) = []"
  "testIndex (onBegin root (newReporter os folder)) = 0"
  by (simp_all add: onBegin_def newReporter_def emptySummary_def counters_def browserCounters_def)

text \<open>After a run whose tasks all returned: the rule ids with an entry of their own in
  the aggregate of the run are those that some parsed payload reports and that are not
  names of inherited properties, and the count of such a rule is the sum of its totals
  over all parsed payloads of all tests.\<close>

lemma rule_count_of_own_entries:
  assumes "runTests e events (onBegin root (newReporter os folder)) = Inr st"
  shows "(ts_wcagErrors (executionSummary st) rule \<noteq> None
            \<longleftrightarrow> rule \<in> e_id ` set (runErrors e events) \<and> rule \<notin> set inheritedKeys)
       \<and> (\<forall>entry. ts_wcagErrors (executionSummary st) rule = Some entry
            \<longrightarrow> w_count entry = ruleTotal rule (runErrors e events))"
proof -
  from runTests_Inr[OF assms] have m: "ts_wcagErrors (executionSummary st) =
      fold addWcag (runErrors e events) Map.empty" by simp
  have "dom (ts_wcagErrors (executionSummary st)) = e_id ` set (runErrors e events) - set inheritedKeys"
    by (simp add: m fold_addWcag_dom)
  hence d: "ts_wcagErrors (executionSummary st) rule \<noteq> None
            \<longleftrightarrow> rule \<in> e_id ` set (runErrors e events) \<and> rule \<notin> set inheritedKeys"
    by (metis DiffD1 DiffD2 DiffI domIff)
  have "w_count entry = ruleTotal rule (runErrors e events)"
    if en: "ts_wcagErrors (executionSummary st) rule = Some entry" for entry
  proof -
    from en d have "rule \<notin> set inheritedKeys" by simp
    hence "countOf (ts_wcagErrors (executionSummary st)) rule = ruleTotal rule (runErrors e events)"
      by (simp add: m fold_addWcag_countOf) (simp add: countOf_def)
    with en show ?thesis by (simp add: countOf_def)
  qed
  with d show ?thesis by blast
qed

lemma demo_env_renders: "renderOk demo_env t f"
  by (simp add: demo_env_def)

text \<open>
  Claim C10. After every run of test completions, in the run summary and in the summary of
  every browser, passed + failed + skipped is at most \<^verbatim>\<open>total\<close>; the difference is the
  number of tests of that summary that ended \<open>timedOut\<close> or \<open>interrupted\<close>, so the
  inequality is strict as soon as the summary has counted one such test. A prefix of a run
  is a run, so this holds after each completion.
\<close>

theorem counters_below_total:
  assumes "runTests e events (onBegin root (newReporter os folder)) = Inr st"
  shows "(let g = executionSummary st in
            ts_totalPassed g + ts_totalFailed g + ts_totalSkipped g \<le> ts_total g \<and>
            ts_total g = ts_totalPassed g + ts_totalFailed g + ts_totalSkipped g
                         + statusCount timedOut (resultsOf events)
                         + statusCount interrupted (resultsOf events) \<and>
            ((\<exists>r \<in> set (resultsOf events). r_status r = timedOut \<or> r_status r = interrupted)
               \<longrightarrow> ts_totalPassed g + ts_totalFailed g + ts_totalSkipped g < ts_total g))
       \<and> (\<forall>b s. browserSummaries st b = Some s \<longrightarrow>
            ts_totalPassed s + ts_totalFailed s + ts_totalSkipped s \<le> ts_total s \<and>
            ts_total s = ts_totalPassed s + ts_totalFailed s + ts_totalSkipped s
                         + statusCount timedOut (resultsOfBrowser b events)
                         + statusCount interrupted (resultsOfBrowser b events) \<and>
            ((\<exists>r \<in> set (resultsOfBrowser b events). r_status r = timedOut \<or> r_status r = interrupted)
               \<longrightarrow> ts_totalPassed s + ts_totalFailed s + ts_totalSkipped s < ts_total s))"
proof -
  have split: "\<And>rs. length rs = statusCount passed rs + statusCount failed rs + statusCount skipped rs
                  + statusCount timedOut rs + statusCount interrupted rs"
  proof -
    fix rs :: "testResult list"
    show "length rs = statusCount passed rs + statusCount failed rs + statusCount skipped rs
                  + statusCount timedOut rs + statusCount interrupted rs"
    proof (induction rs)
      case Nil
      show ?case by (simp add: statusCount_def)
    next
      case (Cons r rs)
      then show ?case by (cases "r_status r") (simp_all add: statusCount_def)
    qed
  qed
  have pos: "\<And>rs. \<exists>r \<in> set rs. r_status r = timedOut \<or> r_status r = interrupted
      \<Longrightarrow> 0 < statusCount timedOut rs + statusCount interrupted rs"
    by (auto simp: statusCount_def filter_empty_conv)
  have shape: "\<And>rs. fold bump (map r_status rs) (0, 0, 0, 0) =
      (length rs, statusCount passed rs, statusCount failed rs, statusCount skipped rs)"
    by (simp add: fold_bump statusCount_def comp_def)
  note r = runTests_Inr[OF assms]
  from r have g: "counters (executionSummary st) =
      (length (resultsOf events), statusCount passed (resultsOf events),
       statusCount failed (resultsOf events), statusCount skipped (resultsOf events))"
    by (simp add: shape)
  have global: "let g = executionSummary st in
            ts_totalPassed g + ts_totalFailed g + ts_totalSkipped g \<le> ts_total g \<and>
            ts_total g = ts_totalPassed g + ts_totalFailed g + ts_totalSkipped g
                         + statusCount timedOut (resultsOf events)
                         + statusCount interrupted (resultsOf events) \<and>
            ((\<exists>r \<in> set (resultsOf events). r_status r = timedOut \<or> r_status r = interrupted)
               \<longrightarrow> ts_totalPassed g + ts_totalFailed g + ts_totalSkipped g < ts_total g)"
    using g split[of "resultsOf events"] pos[of "resultsOf events"]
    by (auto simp: counters_def Let_def)
  have browser: "ts_totalPassed s + ts_totalFailed s + ts_totalSkipped s \<le> ts_total s \<and>
            ts_total s = ts_totalPassed s + ts_totalFailed s + ts_totalSkipped s
                         + statusCount timedOut (resultsOfBrowser b events)
                         + statusCount interrupted (resultsOfBrowser b events) \<and>
            ((\<exists>r \<in> set (resultsOfBrowser b events). r_status r = timedOut \<or> r_status r = interrupted)
               \<longrightarrow> ts_totalPassed s + ts_totalFailed s + ts_totalSkipped s < ts_total s)"
    if s: "browserSummaries st b = Some s" for b s
  proof -
    have own: "b \<notin> set inheritedKeys"
    proof
      assume "b \<in> set inheritedKeys"
      with r have "browserSummaries st b = None" by simp
      with s show False by simp
    qed
    with r have "browserCounters st b =
        fold bump (map r_status (resultsOfBrowser b events)) (0, 0, 0, 0)" by simp
    with s have "counters s =
      (length (resultsOfBrowser b events), statusCount passed (resultsOfBrowser b events),
       statusCount failed (resultsOfBrowser b events), statusCount skipped (resultsOfBrowser b events))"
      by (simp add: shape browserCounters_def)
    thus ?thesis
      using split[of "resultsOfBrowser b events"] pos[of "resultsOfBrowser b events"]
      by (auto simp: counters_def)
  qed
  show ?thesis using global browser by blast
qed

lemma demo_timed_out_results:
  "map r_status (resultsOf demo_run_timed_out) = [passed, timedOut]"
  "map r_status (resultsOfBrowser ''chromium'' demo_run_timed_out) = [passed, timedOut]"
  by (simp_all add: resultsOf_def resultsOfBrowser_def demo_run_timed_out_def demo_outcome_def
      demo_test_def browserOf_def or_str_def)

lemma chromium_own: "''chromium'' \<notin> set inheritedKeys"
  by (simp add: inheritedKeys_def)

theorem counters_below_total_witness:
  "\<exists>st. runTests demo_env demo_run_timed_out demo_reporter = Inr st
     \<and> ts_total (executionSummary st) = 2
     \<and> ts_totalPassed (executionSummary st) + ts_totalFailed (executionSummary st)
         + ts_totalSkipped (executionSummary st) = 1
     \<and> (\<exists>s. browserSummaries st ''chromium'' = Some s \<and> ts_total s = 2
           \<and> ts_totalPassed s + ts_totalFailed s + ts_totalSkipped s = 1)"
proof -
  have "\<not> isl (runTests demo_env demo_run_timed_out demo_reporter)" by code_simp
  then obtain st where st: "runTests demo_env demo_run_timed_out demo_reporter = Inr st"
    by (cases "runTests demo_env demo_run_timed_out demo_reporter") auto
  note c = counters_below_total[OF st[unfolded demo_reporter_def]]
  note r = runTests_Inr[OF st[unfolded demo_reporter_def]]
  have cnt: "statusCount timedOut (resultsOf demo_run_timed_out) = 1"
    "statusCount interrupted (resultsOf demo_run_timed_out) = 0"
    "statusCount timedOut (resultsOfBrowser ''chromium'' demo_run_timed_out) = 1"
    "statusCount interrupted (resultsOfBrowser ''chromium'' demo_run_timed_out) = 0"
    by (simp_all add: statusCount_def resultsOf_def resultsOfBrowser_def demo_run_timed_out_def
        demo_outcome_def demo_test_def browserOf_def or_str_def)
  from r have "counters (executionSummary st) = fold bump [passed, timedOut] (0, 0, 0, 0)"
    by (simp add: demo_timed_out_results)
  hence "counters (executionSummary st) = (2, 1, 0, 0)"
    by (simp add: bump_def)
  hence tot: "ts_total (executionSummary st) = 2"
    by (simp add: counters_def)
  have g: "ts_totalPassed (executionSummary st) + ts_totalFailed (executionSummary st)
         + ts_totalSkipped (executionSummary st) = 1"
    using c tot cnt by (simp add: Let_def)
  from r chromium_own have "browserCounters st ''chromium'' = fold bump [passed, timedOut] (0, 0, 0, 0)"
    by (simp add: demo_timed_out_results)
  hence bc: "browserCounters st ''chromium'' = (2, 1, 0, 0)"
    by (simp add: bump_def)
  then obtain s where s: "browserSummaries st ''chromium'' = Some s"
    by (cases "browserSummaries st ''chromium''") (simp_all add: browserCounters_def)
  with bc have bt: "ts_total s = 2" by (simp add: browserCounters_def counters_def)
  from c s have "ts_total s = ts_totalPassed s + ts_totalFailed s + ts_totalSkipped s
                         + statusCount timedOut (resultsOfBrowser ''chromium'' demo_run_timed_out)
                         + statusCount interrupted (resultsOfBrowser ''chromium'' demo_run_timed_out)"
    by blast
  with bt cnt have "ts_totalPassed s + ts_totalFailed s + ts_totalSkipped s = 1" by simp
  with st tot g s bt show ?thesis by blast
qed

text \<open>
  Claim C9. The flag \<^verbatim>\<open>isFlaky\<close> holds exactly when the test has more than one recorded
  attempt and the status of the result is \<open>passed\<close>, and the task of a finished test adds
  one to \<^verbatim>\<open>totalFlaky\<close> exactly then: a test that passes on its first attempt, and a
  retried test that does not pass, leave the counter as it was.
\<close>

theorem flaky_iff_retried_and_passed:
  "(isFlaky test result \<longleftrightarrow> 1 < length (tc_results test) \<and> r_status result = passed)
   \<and> (\<forall>st'. processTestResult e test result st = Inr st' \<longrightarrow>
         ts_totalFlaky (executionSummary st') =
           ts_totalFlaky (executionSummary st)
           + (if 1 < length (tc_results test) \<and> r_status result = passed then 1 else 0))"
proof -
  have "ts_totalFlaky (executionSummary st') =
           ts_totalFlaky (executionSummary st)
           + (if 1 < length (tc_results test) \<and> r_status result = passed then 1 else 0)"
    if "processTestResult e test result st = Inr st'" for st'
    using processTestResult_Inr[OF that] by (simp add: isFlaky_def)
  thus ?thesis by (simp add: isFlaky_def)
qed

text \<open>A test that failed once and then passed is counted flaky; a test that passes on its
  first attempt is not.\<close>

theorem flaky_iff_retried_and_passed_witness:
  "(\<exists>st'. processTestResult demo_env
             (demo_test ''Login'' [demo_outcome failed [], demo_outcome passed []])
             (demo_outcome passed []) demo_reporter = Inr st'
        \<and> ts_totalFlaky (executionSummary st') = 1)
   \<and> (\<exists>st'. processTestResult demo_env (demo_test ''Login'' [demo_outcome passed []])
             (demo_outcome passed []) demo_reporter = Inr st'
        \<and> ts_totalFlaky (executionSummary st') = 0)"
proof -
  let ?retried = "demo_test ''Login'' [demo_outcome failed [], demo_outcome passed []]"
  let ?first = "demo_test ''Login'' [demo_outcome passed []]"
  let ?res = "demo_outcome passed []"
  have zero: "ts_totalFlaky (executionSummary demo_reporter) = 0"
    by (simp add: demo_reporter_def)
  have "\<not> isl (processTestResult demo_env ?retried ?res demo_reporter)" by code_simp
  then obtain st1 where
    st1: "processTestResult demo_env ?retried ?res demo_reporter = Inr st1"
    by (cases "processTestResult demo_env ?retried ?res demo_reporter") auto
  have "\<not> isl (processTestResult demo_env ?first ?res demo_reporter)" by code_simp
  then obtain st2 where
    st2: "processTestResult demo_env ?first ?res demo_reporter = Inr st2"
    by (cases "processTestResult demo_env ?first ?res demo_reporter") auto
  have "ts_totalFlaky (executionSummary st1) = 1"
    using flaky_iff_retried_and_passed[of ?retried ?res demo_env demo_reporter] st1 zero
    by (simp add: demo_test_def demo_outcome_def)
  moreover have "ts_totalFlaky (executionSummary st2) = 0"
    using flaky_iff_retried_and_passed[of ?first ?res demo_env demo_reporter] st2 zero
    by (simp add: demo_test_def demo_outcome_def)
  ultimately show ?thesis using st1 st2 by blast
qed

lemma a11yReportName_base:
  "a11yReportName title n i pk =
     reportBase title pk @ (if 1 < n then ''-'' @ show_nat (i + 1) else []) @ ''.html''"
  by (simp add: a11yReportName_def reportBase_def Let_def)

lemma scanReports_paths:
  "map written_path (map (scanReportOf os video title folder n) (loadedOf e isrcs)) =
     concat (map (\<lambda>(i, src). case loadReportData e src of
                     Loaded rd \<Rightarrow>
                       [pathJoin folder
                          (reportBase title (rd_pageKey rd)
                           @ (if 1 < n then ''-'' @ show_nat (i + 1) else []) @ ''.html'')]
                   | _ \<Rightarrow> []) isrcs)"
  by (induction isrcs)
     (auto simp: loadedOf_Cons scanReportOf_def scanReportName_def a11yReportName_base
        split: loaded.splits)

text \<open>
  Claim C3. The accessibility sources of a test are the attachments of the result named
  \<open>A11y\<close>, in their order, followed by the annotations of the test of type \<open>A11y\<close>;
  nothing else is a source. The files that the task of the test writes are, in this
  order: one scan report for every source that loads as a payload, then the execution
  report. The scan report of the source at 0-based position \<open>i\<close> among all sources is
  named by its base (the sanitized page key, or the generic name) followed, when the test
  has more than one source, by \<open>-N\<close> for \<open>N = i + 1\<close>, whatever the page keys are; with a
  single source no suffix is appended. A source that is skipped or fails to parse writes
  no file and keeps its position.
\<close>

theorem scan_report_index_suffix:
  assumes "processTestResult e test result st = Inr st'"
  shows "(let srcs = map AttachmentSource (filter (\<lambda>a. att_name a = ''A11y'') (r_attachments result))
                   @ map AnnotationSource (filter (\<lambda>a. an_type a = ''A11y'') (tc_annotations test))
          in map written_path (files st') =
               map written_path (files st)
               @ concat (map (\<lambda>(i, src).
                     case loadReportData e src of
                       Loaded rd \<Rightarrow>
                         [pathJoin (testResultsFolder st test)
                            (reportBase (sanitizeTitle (tc_title test)) (rd_pageKey rd)
                             @ (if 1 < length srcs then ''-'' @ show_nat (i + 1) else [])
                             @ ''.html'')]
                     | _ \<Rightarrow> []) (enumerate 0 srcs))
               @ [executionReportFile st test])"
proof -
  from processTestResult_Inr[OF assms] have "files st' = files st @ scanReports e st test result
         @ [ExecutionReport (executionReportFile st test) (testRecord e st test result)]"
    by blast
  hence "map written_path (files st') =
      map written_path (files st) @ map written_path (scanReports e st test result)
      @ [executionReportFile st test]"
    by simp
  moreover have "map written_path (scanReports e st test result) =
      concat (map (\<lambda>(i, src).
                     case loadReportData e src of
                       Loaded rd \<Rightarrow>
                         [pathJoin (testResultsFolder st test)
                            (reportBase (sanitizeTitle (tc_title test)) (rd_pageKey rd)
                             @ (if 1 < length (a11yDataSources test result)
                                then ''-'' @ show_nat (i + 1) else [])
                             @ ''.html'')]
                     | _ \<Rightarrow> []) (enumerate 0 (a11yDataSources test result)))"
    unfolding scanReports_def loadedPayloads_def indexedSources_def by (rule scanReports_paths)
  ultimately have "map written_path (files st') =
      map written_path (files st)
      @ concat (map (\<lambda>(i, src).
                     case loadReportData e src of
                       Loaded rd \<Rightarrow>
                         [pathJoin (testResultsFolder st test)
                            (reportBase (sanitizeTitle (tc_title test)) (rd_pageKey rd)
                             @ (if 1 < length (a11yDataSources test result)
                                then ''-'' @ show_nat (i + 1) else [])
                             @ ''.html'')]
                     | _ \<Rightarrow> []) (enumerate 0 (a11yDataSources test result)))
      @ [executionReportFile st test]"
    by simp
  thus ?thesis
    unfolding Let_def a11yDataSources_def .
qed

lemma demo_load:
  "loadReportData demo_env (AttachmentSource (demo_attachment ''home''))
     = Loaded (demo_payload ''https://example.com/home'' [demo_error ''color-contrast'' 3])"
  "loadReportData demo_env (AttachmentSource (demo_attachment ''same''))
     = Loaded (demo_payload ''https://example.com/home'' [])"
  by (simp_all add: loadReportData_def parsePayload_def demo_env_def demo_attachment_def)

lemma demo_home_base:
  "reportBase t (rd_pageKey (demo_payload ''https://example.com/home'' errs)) = ''example-com-home''"
proof -
  have "sanitizeKey ''https://example.com/home'' = ''example-com-home''" by code_simp
  thus ?thesis by (simp add: reportBase_def demo_payload_def truthy_def or_str_def)
qed

lemma demo_folder:
  "testResultsFolder demo_reporter (demo_test ''Shop pages'' attempts) = ''report/1-shop-pages''"
  "executionReportFile demo_reporter (demo_test ''Shop pages'' attempts)
     = ''report/1-shop-pages/execution-shop-pages.html''"
proof -
  have "sanitizeTitle ''Shop pages'' = ''shop-pages''" by code_simp
  moreover have "show_nat 1 = ''1''" by code_simp
  ultimately show
    "testResultsFolder demo_reporter (demo_test ''Shop pages'' attempts) = ''report/1-shop-pages''"
    "executionReportFile demo_reporter (demo_test ''Shop pages'' attempts)
       = ''report/1-shop-pages/execution-shop-pages.html''"
    by (simp_all add: executionReportFile_def testResultsFolder_def testFolderName_def pathJoin_def
        demo_reporter_def onBegin_def newReporter_def demo_test_def)
qed

text \<open>A screenshot and two payloads with the same page key: the files of the payloads are
  told apart by \<open>-1\<close> and \<open>-2\<close>, the screenshot is no source. The screenshot and one
  payload: no suffix.\<close>

theorem scan_report_index_suffix_witness:
  "(\<exists>st'. processTestResult demo_env demo_same_key_test demo_same_key_outcome demo_reporter = Inr st'
      \<and> map written_path (files st') =
          [''report/1-shop-pages/example-com-home-1.html'',
           ''report/1-shop-pages/example-com-home-2.html'',
           ''report/1-shop-pages/execution-shop-pages.html''])
   \<and> (\<exists>st'. processTestResult demo_env demo_single_test demo_single_outcome demo_reporter = Inr st'
      \<and> map written_path (files st') =
          [''report/1-shop-pages/example-com-home.html'',
           ''report/1-shop-pages/execution-shop-pages.html''])"
proof -
  have one: "show_nat (Suc 0) = ''1''"
    and two: "show_nat 2 = ''2''" "show_nat (Suc (Suc 0)) = ''2''" "show_nat (Suc 1) = ''2''"
    by code_simp+
  have f0: "files demo_reporter = []"
    by (simp add: demo_reporter_def onBegin_def newReporter_def)
  have "\<not> isl (processTestResult demo_env demo_same_key_test demo_same_key_outcome demo_reporter)"
    by code_simp
  then obtain st1 where st1:
    "processTestResult demo_env demo_same_key_test demo_same_key_outcome demo_reporter = Inr st1"
    by (cases "processTestResult demo_env demo_same_key_test demo_same_key_outcome demo_reporter") auto
  have "\<not> isl (processTestResult demo_env demo_single_test demo_single_outcome demo_reporter)"
    by code_simp
  then obtain st2 where st2:
    "processTestResult demo_env demo_single_test demo_single_outcome demo_reporter = Inr st2"
    by (cases "processTestResult demo_env demo_single_test demo_single_outcome demo_reporter") auto
  have "map written_path (files st1) =
          [''report/1-shop-pages/example-com-home-1.html'',
           ''report/1-shop-pages/example-com-home-2.html'',
           ''report/1-shop-pages/execution-shop-pages.html'']"
    using scan_report_index_suffix[OF st1]
    by (simp add: Let_def demo_same_key_outcome_def demo_same_key_test_def demo_attachments_def
        demo_screenshot_def demo_attachment_def[symmetric] demo_load demo_home_base demo_folder
        one two f0 pathJoin_def)
       (simp add: demo_attachment_def demo_test_def)
  moreover have "map written_path (files st2) =
          [''report/1-shop-pages/example-com-home.html'',
           ''report/1-shop-pages/execution-shop-pages.html'']"
    using scan_report_index_suffix[OF st2]
    by (simp add: Let_def demo_single_outcome_def demo_single_test_def demo_attachments_def
        demo_screenshot_def demo_attachment_def[symmetric] demo_load demo_home_base demo_folder
        one two f0 pathJoin_def)
       (simp add: demo_attachment_def demo_test_def)
  ultimately show ?thesis using st1 st2 by auto
qed

text \<open>A test with exactly one payload whose report nevertheless carries a suffix: the
  result has an \<open>A11y\<close> attachment without body and without file, which is skipped
  without a log line, and then one scan. One payload is loaded and its report is
  \<open>example-com-home-2.html\<close>.\<close>

theorem scan_report_index_suffix_counterexample:
  "length (loadedPayloads demo_env demo_stray_test demo_stray_outcome) = 1
   \<and> (\<exists>st'. processTestResult demo_env demo_stray_test demo_stray_outcome demo_reporter = Inr st'
      \<and> map written_path (files st') =
          [''report/1-shop-pages/example-com-home-2.html'',
           ''report/1-shop-pages/execution-shop-pages.html''])"
proof -
  have n: "length (loadedPayloads demo_env demo_stray_test demo_stray_outcome) = 1"
    by code_simp
  have "case processTestResult demo_env demo_stray_test demo_stray_outcome demo_reporter of
          Inl ex \<Rightarrow> False
        | Inr st' \<Rightarrow> map written_path (files st') =
            [''report/1-shop-pages/example-com-home-2.html'',
             ''report/1-shop-pages/execution-shop-pages.html'']"
    by code_simp
  hence "\<exists>st'. processTestResult demo_env demo_stray_test demo_stray_outcome demo_reporter = Inr st'
      \<and> map written_path (files st') =
          [''report/1-shop-pages/example-com-home-2.html'',
           ''report/1-shop-pages/execution-shop-pages.html'']"
    by (auto split: sum.splits)
  with n show ?thesis by blast
qed

text \<open>
  Claim C1, on a run whose payloads report three targets for \<open>color-contrast\<close> twice and
  three targets for a rule named \<open>toString\<close> once. The two scans of \<open>color-contrast\<close> add
  up to six, and the trace between them, which is no scan, adds nothing. The rule
  \<open>toString\<close> has three targets in the parsed payloads and they are counted in the total
  of the run, which is nine, but the aggregate of the run has no entry for the rule:
  \<^verbatim>\<open>wcagErrors['toString']\<close> finds the inherited function, the entry is not created,
  and the count is written to a property of that function.
\<close>

theorem rule_count_inherited_key:
  "ruleTotal ''color-contrast'' (runErrors demo_env demo_run_rules) = 6
   \<and> ruleTotal ''toString'' (runErrors demo_env demo_run_rules) = 3
   \<and> (\<exists>st. runTests demo_env demo_run_rules demo_reporter = Inr st
        \<and> map_option w_count (ts_wcagErrors (executionSummary st) ''color-contrast'') = Some 6
        \<and> map_option w_count (ts_wcagErrors (executionSummary st) ''toString'') = None
        \<and> ts_totalA11yErrorCount (executionSummary st) = 9)"
proof -
  have a: "ruleTotal ''color-contrast'' (runErrors demo_env demo_run_rules) = 6"
    by code_simp
  have b: "ruleTotal ''toString'' (runErrors demo_env demo_run_rules) = 3"
    by code_simp
  have "case runTests demo_env demo_run_rules demo_reporter of
          Inl ex \<Rightarrow> False
        | Inr st \<Rightarrow>
            map_option w_count (ts_wcagErrors (executionSummary st) ''color-contrast'') = Some 6
            \<and> map_option w_count (ts_wcagErrors (executionSummary st) ''toString'') = None
            \<and> ts_totalA11yErrorCount (executionSummary st) = 9"
    by code_simp
  hence "\<exists>st. runTests demo_env demo_run_rules demo_reporter = Inr st
        \<and> map_option w_count (ts_wcagErrors (executionSummary st) ''color-contrast'') = Some 6
        \<and> map_option w_count (ts_wcagErrors (executionSummary st) ''toString'') = None
        \<and> ts_totalA11yErrorCount (executionSummary st) = 9"
    by (auto split: sum.splits)
  with a b show ?thesis by blast
qed

text \<open>
  Claim C6, on a test with three payloads. When the second is not valid JSON, the
  exception of \<^verbatim>\<open>JSON.parse\<close> is caught: the two sound payloads get their reports, the
  execution report is written, and the record of the test holds the log line of the
  failure and the six targets of the sound payloads. When the second is the JSON text
  \<^verbatim>\<open>null\<close>, \<^verbatim>\<open>JSON.parse\<close> returns \<^verbatim>\<open>null\<close>, the \<^verbatim>\<open>try\<close> block is left without an
  exception, and \<^verbatim>\<open>reportData.pageKey\<close> throws a \<^verbatim>\<open>TypeError\<close> that nothing catches: the
  task is rejected, the third payload is never looked at, no record is pushed and no
  execution report is written.
\<close>

theorem null_payload_rejects_task:
  "processTestResult demo_env demo_null_test demo_null_outcome demo_reporter = Inl TypeError
   \<and> (\<exists>st'. processTestResult demo_env demo_broken_test demo_broken_outcome demo_reporter = Inr st'
        \<and> map written_path (files st') =
            [''report/1-shop-pages/example-com-home-1.html'',
             ''report/1-shop-pages/example-com-cart-3.html'',
             ''report/1-shop-pages/execution-shop-pages.html'']
        \<and> concat (map tr_errors (groupOf st' ''shop.spec.ts'')) =
            [''[SnapAlly] Internal error parsing accessibility data from attachment: ''
             @ ''SyntaxError: Unexpected token'']
        \<and> map tr_a11yErrorCount (groupOf st' ''shop.spec.ts'') = [6])"
proof -
  have "case processTestResult demo_env demo_null_test demo_null_outcome demo_reporter of
          Inl ex \<Rightarrow> ex = TypeError
        | Inr st' \<Rightarrow> False"
    by code_simp
  hence a: "processTestResult demo_env demo_null_test demo_null_outcome demo_reporter = Inl TypeError"
    by (auto split: sum.splits)
  have "case processTestResult demo_env demo_broken_test demo_broken_outcome demo_reporter of
          Inl ex \<Rightarrow> False
        | Inr st' \<Rightarrow>
            map written_path (files st') =
              [''report/1-shop-pages/example-com-home-1.html'',
               ''report/1-shop-pages/example-com-cart-3.html'',
               ''report/1-shop-pages/execution-shop-pages.html'']
            \<and> concat (map tr_errors (groupOf st' ''shop.spec.ts'')) =
                [''[SnapAlly] Internal error parsing accessibility data from attachment: ''
                 @ ''SyntaxError: Unexpected token'']
            \<and> map tr_a11yErrorCount (groupOf st' ''shop.spec.ts'') = [6]"
    by code_simp
  hence "\<exists>st'. processTestResult demo_env demo_broken_test demo_broken_outcome demo_reporter = Inr st'
        \<and> map written_path (files st') =
            [''report/1-shop-pages/example-com-home-1.html'',
             ''report/1-shop-pages/example-com-cart-3.html'',
             ''report/1-shop-pages/execution-shop-pages.html'']
        \<and> concat (map tr_errors (groupOf st' ''shop.spec.ts'')) =
            [''[SnapAlly] Internal error parsing accessibility data from attachment: ''
             @ ''SyntaxError: Unexpected token'']
        \<and> map tr_a11yErrorCount (groupOf st' ''shop.spec.ts'') = [6]"
    by (auto split: sum.splits)
  with a show ?thesis by blast
qed

text \<open>Two tests end while the video of the first is still polled: both tasks have begun
  when the first is resumed, and the record of the first test, filed in the folder
  \<open>1-home\<close>, has the number 2.\<close>

lemma record_number_is_read_on_resumption:
  "(case beginTask demo_env (demo_test ''Home'' []) demo_reporter of
      (l1, s1) \<Rightarrow>
        (case beginTask demo_env (demo_test ''Cart'' []) s1 of
           (l2, s2) \<Rightarrow>
             (case continueTask demo_env (demo_test ''Home'' []) (demo_outcome passed []) l1 s2 of
                Inl ex \<Rightarrow> []
              | Inr s3 \<Rightarrow> map (\<lambda>r. (tr_folderName r, tr_num r)) (groupOf s3 ''shop.spec.ts''))))
   = [(''1-home'', 2)]"
  by code_simp

section \<open>Properties of the page-key sanitizer\<close>

declare alnum_words.simps [simp del]

lemma alnum_not_hyphen: "is_alnum c \<Longrightarrow> c \<noteq> CHR ''-''"
  by (auto simp: is_alnum_def)

lemma rtrim_Nil [simp]: "rtrim [] = []"
  by (simp add: rtrim_def)

lemma rtrim_append: "rtrim (a @ b) = (if rtrim b = [] then rtrim a else a @ rtrim b)"
  by (auto simp: rtrim_def dropWhile_append dropWhile_eq_Nil_conv)

lemma rtrim_hyphen: "rtrim (CHR ''-'' # x) = (if rtrim x = [] then [] else CHR ''-'' # rtrim x)"
  using rtrim_append[of "[CHR ''-'']" x] by (simp add: rtrim_def)

lemma rtrim_word: "w \<noteq> [] \<Longrightarrow> is_alnum (last w) \<Longrightarrow> rtrim w = w"
  by (cases w rule: rev_cases) (auto simp: rtrim_def dest: alnum_not_hyphen)

lemma collapse_word: "\<forall>c \<in> set w. is_alnum c \<Longrightarrow> collapse_non_alnum (w @ r) = w @ collapse_non_alnum r"
  by (induction w) auto

lemma collapse_sep:
  "s \<noteq> [] \<Longrightarrow> \<not> is_alnum (hd s) \<Longrightarrow>
     collapse_non_alnum s = CHR ''-'' # collapse_non_alnum (dropWhile (\<lambda>c. \<not> is_alnum c) s)"
  by (cases s) auto

lemma collapse_starts_alnum:
  "s \<noteq> [] \<Longrightarrow> is_alnum (hd s) \<Longrightarrow> collapse_non_alnum s \<noteq> [] \<and> hd (collapse_non_alnum s) = hd s"
  by (cases s) auto

lemma trim_hyphens_rtrim: "trim_hyphens s = rtrim (dropWhile (\<lambda>c. c = CHR ''-'') s)"
  by (simp add: trim_hyphens_def rtrim_def)

lemma ltrim_collapse_alnum:
  "s = [] \<or> is_alnum (hd s) \<Longrightarrow>
     dropWhile (\<lambda>c. c = CHR ''-'') (collapse_non_alnum s) = collapse_non_alnum s"
  by (cases s) (auto dest: alnum_not_hyphen)

lemma after_seps: "dropWhile (\<lambda>c. \<not> is_alnum c) s = [] \<or> is_alnum (hd (dropWhile (\<lambda>c. \<not> is_alnum c) s))"
  using hd_dropWhile[of "\<lambda>c. \<not> is_alnum c" s] by auto

lemma after_word: "dropWhile is_alnum s = [] \<or> \<not> is_alnum (hd (dropWhile is_alnum s))"
  using hd_dropWhile[of is_alnum s] by auto

lemma ltrim_collapse:
  "dropWhile (\<lambda>c. c = CHR ''-'') (collapse_non_alnum s)
     = collapse_non_alnum (dropWhile (\<lambda>c. \<not> is_alnum c) s)"
proof (cases "s = [] \<or> is_alnum (hd s)")
  case True
  hence "dropWhile (\<lambda>c. \<not> is_alnum c) s = s" by (cases s) auto
  with True show ?thesis by (simp add: ltrim_collapse_alnum)
next
  case False
  hence "collapse_non_alnum s = CHR ''-'' # collapse_non_alnum (dropWhile (\<lambda>c. \<not> is_alnum c) s)"
    by (simp add: collapse_sep)
  thus ?thesis
    using ltrim_collapse_alnum[OF after_seps[of s]] by simp
qed

lemma trim_collapse: 
  "trim_hyphens (collapse_non_alnum s) = rtrim (collapse_non_alnum (dropWhile (\<lambda>c. \<not> is_alnum c) s))"
  by (simp add: trim_hyphens_rtrim ltrim_collapse)

lemma rtrim_collapse_sep:
  assumes "r = [] \<or> \<not> is_alnum (hd r)"
  shows "rtrim (collapse_non_alnum r) =
     (if trim_hyphens (collapse_non_alnum r) = [] then []
      else CHR ''-'' # trim_hyphens (collapse_non_alnum r))"
proof (cases "r = []")
  case True
  then show ?thesis by (simp add: trim_hyphens_rtrim)
next
  case False
  with assms have c: "collapse_non_alnum r
      = CHR ''-'' # collapse_non_alnum (dropWhile (\<lambda>c. \<not> is_alnum c) r)"
    by (simp add: collapse_sep)
  have t: "trim_hyphens (collapse_non_alnum r)
      = rtrim (collapse_non_alnum (dropWhile (\<lambda>c. \<not> is_alnum c) r))"
    by (rule trim_collapse)
  have "rtrim (collapse_non_alnum r)
      = rtrim (CHR ''-'' # collapse_non_alnum (dropWhile (\<lambda>c. \<not> is_alnum c) r))"
    using c by simp
  thus ?thesis unfolding t by (simp add: rtrim_hyphen)
qed

lemma alnum_words_Nil: "dropWhile (\<lambda>c. \<not> is_alnum c) s = [] \<Longrightarrow> alnum_words s = []"
  by (subst alnum_words.simps) (simp del: dropWhile_eq_Nil_conv)

lemma alnum_words_Cons:
  "dropWhile (\<lambda>c. \<not> is_alnum c) s = c # cs \<Longrightarrow>
     alnum_words s = (c # takeWhile is_alnum cs) # alnum_words (dropWhile is_alnum cs)"
  using hd_dropWhile[of "\<lambda>c. \<not> is_alnum c" s]
  by (subst alnum_words.simps) simp

lemma alnum_words_nonempty: "[] \<notin> set (alnum_words s)"
proof (induction s rule: alnum_words.induct)
  case (1 s)
  show ?case
  proof (cases "dropWhile (\<lambda>c. \<not> is_alnum c) s")
    case Nil
    then show ?thesis by (simp add: alnum_words_Nil)
  next
    case (Cons c cs)
    with 1[OF Cons] show ?thesis by (simp add: alnum_words_Cons)
  qed
qed

lemma join_hyphen_Cons:
  "join_hyphen (w # ws) = (if ws = [] then w else w @ CHR ''-'' # join_hyphen ws)"
  by (cases ws) simp_all

lemma join_hyphen_empty: "[] \<notin> set ws \<Longrightarrow> join_hyphen ws = [] \<longleftrightarrow> ws = []"
  by (cases ws) (auto simp: join_hyphen_Cons)

lemma trim_collapse_words:
  "trim_hyphens (collapse_non_alnum s) = join_hyphen (alnum_words s)"
proof (induction s rule: alnum_words.induct)
  case (1 s)
  show ?case
  proof (cases "dropWhile (\<lambda>c. \<not> is_alnum c) s")
    case Nil
    then show ?thesis by (simp add: trim_collapse alnum_words_Nil del: dropWhile_eq_Nil_conv)
  next
    case (Cons c cs)
    let ?w = "c # takeWhile is_alnum cs"
    let ?r = "dropWhile is_alnum cs"
    let ?t = "trim_hyphens (collapse_non_alnum ?r)"
    from Cons have c: "is_alnum c"
      using hd_dropWhile[of "\<lambda>c. \<not> is_alnum c" s] by simp
    have split: "c # cs = ?w @ ?r" by simp
    have w: "\<forall>x \<in> set ?w. is_alnum x"
      using c by (auto dest: set_takeWhileD)
    have lastw: "is_alnum (last ?w)" using w by (metis last_in_set list.distinct(1))
    have "collapse_non_alnum (c # cs) = ?w @ collapse_non_alnum ?r"
      using collapse_word[OF w, of ?r] by simp
    hence "trim_hyphens (collapse_non_alnum s) = rtrim (?w @ collapse_non_alnum ?r)"
      by (simp add: trim_collapse Cons)
    also have "\<dots> = (if rtrim (collapse_non_alnum ?r) = [] then ?w
                     else ?w @ rtrim (collapse_non_alnum ?r))"
    proof -
      have rw: "rtrim ?w = ?w" by (rule rtrim_word[OF _ lastw]) simp
      show ?thesis by (subst rtrim_append) (simp only: rw)
    qed
    also have "\<dots> = (if ?t = [] then ?w else ?w @ CHR ''-'' # ?t)"
      by (simp add: rtrim_collapse_sep[OF after_word[of cs]])
    finally have lhs: "trim_hyphens (collapse_non_alnum s)
        = (if ?t = [] then ?w else ?w @ CHR ''-'' # ?t)" .
    have ih: "?t = join_hyphen (alnum_words ?r)" by (rule 1[OF Cons])
    have "join_hyphen (alnum_words s)
        = (if alnum_words ?r = [] then ?w else ?w @ CHR ''-'' # join_hyphen (alnum_words ?r))"
      by (simp add: alnum_words_Cons[OF Cons] join_hyphen_Cons)
    thus ?thesis
      using lhs ih join_hyphen_empty[OF alnum_words_nonempty[of ?r]] by simp
  qed
qed

lemma strip_protocol_step:
  assumes "\<not> protocolAt (c # cs)"
  shows "strip_protocol (c # cs) = c # strip_protocol cs"
proof -
  from assms have a: "\<not> prefix ''https://'' (c # cs)" and b: "\<not> prefix ''http://'' (c # cs)"
    unfolding protocolAt_def by blast+
  show ?thesis by (simp only: strip_protocol.simps a b if_False)
qed

lemma strip_protocol_at:
  assumes "protocolAt s"
  shows "strip_protocol s = spec_stripPrefix s"
proof (cases s)
  case Nil
  with assms show ?thesis by (simp add: protocolAt_def)
next
  case (Cons c cs)
  show ?thesis
  proof (cases "prefix ''https://'' (c # cs)")
    case True
    thus ?thesis by (simp only: Cons strip_protocol.simps spec_stripPrefix_def if_True)
  next
    case False
    with assms Cons have h: "prefix ''http://'' (c # cs)" unfolding protocolAt_def by blast
    show ?thesis by (simp only: Cons strip_protocol.simps spec_stripPrefix_def False h if_False if_True)
  qed
qed

lemma strip_protocol_none:
  "\<forall>j < length k. \<not> protocolAt (drop j k) \<Longrightarrow> strip_protocol k = k"
proof (induction k)
  case Nil
  show ?case by simp
next
  case (Cons c cs)
  from Cons.prems have here: "\<not> protocolAt (c # cs)" by (metis drop0 length_greater_0_conv list.distinct(1))
  have "\<forall>j < length cs. \<not> protocolAt (drop j cs)"
  proof (intro allI impI)
    fix j assume "j < length cs"
    hence "Suc j < length (c # cs)" by simp
    with Cons.prems have "\<not> protocolAt (drop (Suc j) (c # cs))" by blast
    thus "\<not> protocolAt (drop j cs)" by simp
  qed
  hence "strip_protocol cs = cs" by (rule Cons.IH)
  with strip_protocol_step[OF here] show ?case by (simp only:)
qed

lemma strip_protocol_leftmost:
  assumes p: "p = ''http://'' \<or> p = ''https://''"
    and first: "\<forall>j < length u. \<not> protocolAt (drop j (u @ p @ v))"
  shows "strip_protocol (u @ p @ v) = u @ v"
  using first
proof (induction u)
  case Nil
  have "protocolAt (p @ v)" using p by (auto simp: protocolAt_def)
  moreover have "spec_stripPrefix (p @ v) = v" using p by (auto simp: spec_stripPrefix_def)
  ultimately show ?case by (simp add: strip_protocol_at)
next
  case (Cons c u)
  from Cons.prems have here: "\<not> protocolAt (c # u @ p @ v)"
    by (metis append_Cons drop0 length_greater_0_conv list.distinct(1))
  have "\<forall>j < length u. \<not> protocolAt (drop j (u @ p @ v))"
  proof (intro allI impI)
    fix j assume "j < length u"
    hence "Suc j < length (c # u)" by simp
    with Cons.prems have "\<not> protocolAt (drop (Suc j) ((c # u) @ p @ v))" by blast
    thus "\<not> protocolAt (drop j (u @ p @ v))" by simp
  qed
  hence "strip_protocol (u @ p @ v) = u @ v" by (rule Cons.IH)
  with strip_protocol_step[OF here] show ?case by (simp only: append_Cons)
qed

lemma sanitizeKey_words:
  "sanitizeKey k = toLowerCase (join_hyphen (alnum_words (strip_protocol k)))"
  by (simp add: sanitizeKey_def trim_collapse_words)

lemma sanitizeKey_agrees:
  assumes "protocolAt k \<or> (\<forall>j < length k. \<not> protocolAt (drop j k))"
  shows "sanitizeKey k = spec_sanitizeKey k"
proof -
  have "strip_protocol k = spec_stripPrefix k"
  proof (cases "protocolAt k")
    case True
    then show ?thesis by (rule strip_protocol_at)
  next
    case False
    with assms have none: "\<forall>j < length k. \<not> protocolAt (drop j k)" by blast
    from False have "spec_stripPrefix k = k" by (auto simp: spec_stripPrefix_def protocolAt_def)
    with strip_protocol_none[OF none] show ?thesis by simp
  qed
  thus ?thesis by (simp add: sanitizeKey_def spec_sanitizeKey_def)
qed

lemma sanitize_example: "sanitizeKey ''https://Example.com/Home Page!!'' = ''example-com-home-page''"
  by code_simp

text \<open>
  Claim C4, as the code has it. The first replacement has no anchor: it removes the
  leftmost occurrence of \<^verbatim>\<open>http://\<close> or \<^verbatim>\<open>https://\<close> (in lower case) wherever it
  stands in the key, not only a leading one; a key without an occurrence is left as it is.
  The sanitized key is then the maximal runs of ASCII letters and digits of what remains,
  joined by single hyphens and lower-cased, which is what collapsing the other runs to a
  hyphen and trimming the hyphens at both ends gives. For a key that starts with the protocol or has no
  occurrence of it, this is the derivation that strips the protocol prefix. The key of the
  example becomes \<open>example-com-home-page\<close>. A key that is present and sanitizes to
  something non-empty names the file; an absent or empty key, or one that sanitizes to
  nothing, gives the generic name built from the sanitized test title.
\<close>

theorem page_key_sanitized:
  "sanitizeKey k = toLowerCase (join_hyphen (alnum_words (strip_protocol k)))
   \<and> ((p = ''http://'' \<or> p = ''https://'') \<and> (\<forall>j < length u. \<not> protocolAt (drop j (u @ p @ v)))
        \<longrightarrow> strip_protocol (u @ p @ v) = u @ v)
   \<and> ((\<forall>j < length k. \<not> protocolAt (drop j k)) \<longrightarrow> strip_protocol k = k)
   \<and> (protocolAt k \<or> (\<forall>j < length k. \<not> protocolAt (drop j k))
        \<longrightarrow> sanitizeKey k = spec_sanitizeKey k)
   \<and> sanitizeKey ''https://Example.com/Home Page!!'' = ''example-com-home-page''
   \<and> (truthy pk \<and> sanitizeKey (or_str pk []) \<noteq> []
        \<longrightarrow> a11yReportName title n i pk =
              sanitizeKey (or_str pk []) @ (if 1 < n then ''-'' @ show_nat (i + 1) else []) @ ''.html'')
   \<and> (\<not> truthy pk \<or> sanitizeKey (or_str pk []) = []
        \<longrightarrow> a11yReportName title n i pk =
              ''accessibility-'' @ title @ (if 1 < n then ''-'' @ show_nat (i + 1) else []) @ ''.html'')"
  using sanitizeKey_words strip_protocol_leftmost strip_protocol_none sanitizeKey_agrees
    sanitize_example
  by (auto simp: a11yReportName_base reportBase_def)

text \<open>The claim as written fails: in \<open>see http://b\<close> the protocol is no prefix of the
  key, yet it is removed.\<close>

theorem page_key_sanitized_counterexample:
  "sanitizeKey ''see http://b'' = ''see-b''
   \<and> spec_sanitizeKey ''see http://b'' = ''see-http-b''
   \<and> sanitizeKey ''see http://b'' \<noteq> spec_sanitizeKey ''see http://b''"
  by code_simp

lemma all_below_list: "(\<forall>j < n. P j) \<longleftrightarrow> (\<forall>j \<in> set [0..<n]. P j)"
  by auto

text \<open>The theorem on three keys: a leading protocol, a protocol in the middle and none;
  and on the names of a single payload with a usable key, with a key of punctuation only
  and without a key.\<close>

theorem page_key_sanitized_witness:
  "strip_protocol ''https://Example.com/Home Page!!'' = ''Example.com/Home Page!!''
   \<and> strip_protocol ''see http://b'' = ''see b''
   \<and> strip_protocol ''Homepage'' = ''Homepage''
   \<and> sanitizeKey ''https://Example.com/Home Page!!''
       = spec_sanitizeKey ''https://Example.com/Home Page!!''
   \<and> a11yReportName ''my-test'' 1 0 (Some ''https://Example.com/Home Page!!'')
       = ''example-com-home-page.html''
   \<and> a11yReportName ''my-test'' 1 0 (Some ''!!!'') = ''accessibility-my-test.html''
   \<and> a11yReportName ''my-test'' 1 0 None = ''accessibility-my-test.html''"
proof -
  have a: "strip_protocol ([] @ ''https://'' @ ''Example.com/Home Page!!'') = [] @ ''Example.com/Home Page!!''"
    using page_key_sanitized[where p = "''https://''" and u = "[]" and v = "''Example.com/Home Page!!''"]
    by simp
  have "\<forall>j \<in> set [0..<length ''see '']. \<not> protocolAt (drop j (''see '' @ ''http://'' @ ''b''))"
    by code_simp
  hence "\<forall>j < length ''see ''. \<not> protocolAt (drop j (''see '' @ ''http://'' @ ''b''))"
    by (simp only: all_below_list)
  hence b: "strip_protocol (''see '' @ ''http://'' @ ''b'') = ''see '' @ ''b''"
    using page_key_sanitized[where p = "''http://''" and u = "''see ''" and v = "''b''"]
    by blast
  have "\<forall>j \<in> set [0..<length ''Homepage'']. \<not> protocolAt (drop j ''Homepage'')"
    by code_simp
  hence "\<forall>j < length ''Homepage''. \<not> protocolAt (drop j ''Homepage'')"
    by (simp only: all_below_list)
  hence c: "strip_protocol ''Homepage'' = ''Homepage''"
    using page_key_sanitized[where k = "''Homepage''"] by blast
  have "protocolAt ''https://Example.com/Home Page!!''" by code_simp
  hence d: "sanitizeKey ''https://Example.com/Home Page!!''
       = spec_sanitizeKey ''https://Example.com/Home Page!!''"
    using page_key_sanitized[where k = "''https://Example.com/Home Page!!''"] by blast
  have ex: "sanitizeKey ''https://Example.com/Home Page!!'' = ''example-com-home-page''"
    using page_key_sanitized by blast
  have e: "a11yReportName ''my-test'' 1 0 (Some ''https://Example.com/Home Page!!'')
       = ''example-com-home-page.html''"
    using page_key_sanitized[where pk = "Some ''https://Example.com/Home Page!!''"
        and title = "''my-test''" and n = 1 and i = 0] ex
    by (simp add: truthy_def or_str_def)
  have "sanitizeKey ''!!!'' = []" by code_simp
  hence f: "a11yReportName ''my-test'' 1 0 (Some ''!!!'') = ''accessibility-my-test.html''"
    using page_key_sanitized[where pk = "Some ''!!!''" and title = "''my-test''" and n = 1 and i = 0]
    by (simp add: truthy_def or_str_def)
  have g: "a11yReportName ''my-test'' 1 0 None = ''accessibility-my-test.html''"
    using page_key_sanitized[where pk = None and title = "''my-test''" and n = 1 and i = 0]
    by (simp add: truthy_def)
  show ?thesis using a b c d e f g by simp
qed

section \<open>Properties of the barrier of onEnd\<close>

lemma scanReports_no_summary: "w \<in> set (scanReports e st test result) \<Longrightarrow> \<not> is_summary w"
  by (auto simp: scanReports_def scanReportOf_def is_summary_def)

lemma spawn_no_summary:
  assumes "spawn e cfg k test result = Running ws" and "w \<in> set ws"
  shows "\<not> is_summary w"
proof -
  let ?st = "cfg\<lparr>testIndex := k, files := []\<rparr>"
  from assms(1) obtain st' where run: "processTestResult e test result ?st = Inr st'"
    and ws: "ws = files st'"
    by (auto simp: spawn_def split: sum.splits)
  from processTestResult_Inr[OF run] have "files st' = scanReports e ?st test result
         @ [ExecutionReport (executionReportFile ?st test) (testRecord e ?st test result)]"
    by simp
  with assms(2) ws show ?thesis
    by (auto simp: is_summary_def dest: scanReports_no_summary)
qed

lemma onEnd_files:
  "onEnd e runStatus runDuration (cfg\<lparr>files := []\<rparr>) = Inr st'
     \<Longrightarrow> files st' = [SummaryReport (pathJoin (outputFolder cfg) ''summary.html'')]"
  by (auto simp: onEnd_def render_def Let_def split: if_splits)

lemma barrier_inv_start: "barrier_inv startSched"
  by (simp add: barrier_inv_def startSched_def)

lemma fire_inv:
  assumes "barrier_inv s" and "fire e cfg ev s = Some s'"
  shows "barrier_inv s'"
proof (cases ev)
  case (TestEnd test result)
  with assms(2) have ph: "phase s = Collecting"
    and s': "s' = s\<lparr>tasks := tasks s @ [spawn e cfg (length (tasks s)) test result]\<rparr>"
    by (auto split: if_splits)
  show ?thesis
    using assms(1) spawn_no_summary[of e cfg "length (tasks s)" test result]
    unfolding s' barrier_inv_def by (auto simp: ph)
next
  case (Resume i)
  with assms(2) obtain w ws where i: "i < length (tasks s)" and ti: "tasks s ! i = Running (w # ws)"
    and s': "s' = s\<lparr>tasks := (tasks s)[i := Running ws], disk := disk s @ [w]\<rparr>"
    by (auto split: if_splits task.splits list.splits)
  from i ti have mem: "Running (w # ws) \<in> set (tasks s)" by (metis nth_mem)
  with assms(1) have nw: "\<not> is_summary w" and nws: "\<forall>v \<in> set ws. \<not> is_summary v"
    by (auto simp: barrier_inv_def)
  have notR: "phase s \<noteq> Rendered"
  proof
    assume "phase s = Rendered"
    with assms(1) have "list_all (\<lambda>t. t = Running []) (tasks s)" by (simp add: barrier_inv_def)
    with mem show False by (auto simp: list_all_iff)
  qed
  have tasks': "\<forall>t \<in> set ((tasks s)[i := Running ws]). \<forall>vs. t = Running vs \<longrightarrow> (\<forall>v \<in> set vs. \<not> is_summary v)"
  proof (intro ballI allI impI)
    fix t vs v assume t: "t \<in> set ((tasks s)[i := Running ws])" "t = Running vs" "v \<in> set vs"
    from t(1) have "t = Running ws \<or> t \<in> set (tasks s)"
      using set_update_subset_insert[of "tasks s" i "Running ws"] by auto
    thus "\<not> is_summary v"
      using t(2,3) nws assms(1) by (auto simp: barrier_inv_def)
  qed
  show ?thesis
    using assms(1) notR nw tasks' unfolding s' barrier_inv_def by auto
next
  case (RunEnd runStatus runDuration)
  with assms(2) have ph: "phase s = Collecting" and s': "s' = s\<lparr>phase := Awaiting runStatus runDuration\<rparr>"
    by (auto split: if_splits)
  show ?thesis using assms(1) unfolding s' barrier_inv_def by (auto simp: ph)
next
  case Settle
  with assms(2) obtain rs rd where ph: "phase s = Awaiting rs rd"
    by (auto split: phase.splits)
  from assms(1) ph have clean: "\<forall>w \<in> set (disk s). \<not> is_summary w"
    and tk: "\<forall>t \<in> set (tasks s). \<forall>ws. t = Running ws \<longrightarrow> (\<forall>w \<in> set ws. \<not> is_summary w)"
    by (auto simp: barrier_inv_def)
  show ?thesis
  proof (cases "phase s' = Rendered")
    case False
    from assms(2) Settle ph have "disk s' = disk s \<or> phase s' = Rendered" "tasks s' = tasks s"
      by (auto split: if_splits sum.splits)
    with False clean tk show ?thesis by (auto simp: barrier_inv_def)
  next
    case True
    with assms(2) Settle ph obtain st' where
      all: "list_all (\<lambda>t. t = Running []) (tasks s)" and
      oe: "onEnd e rs rd (cfg\<lparr>files := []\<rparr>) = Inr st'" and
      s': "s' = s\<lparr>phase := Rendered, disk := disk s @ files st'\<rparr>"
      by (auto split: if_splits sum.splits)
    from onEnd_files[OF oe] clean all tk show ?thesis
      unfolding s' barrier_inv_def by auto
  qed
qed

lemma schedule_inv:
  "barrier_inv s \<Longrightarrow> schedule e cfg evs s = Some s' \<Longrightarrow> barrier_inv s'"
proof (induction evs arbitrary: s)
  case Nil
  then show ?case by simp
next
  case (Cons ev evs)
  from Cons.prems(2) obtain s1 where f: "fire e cfg ev s = Some s1"
    and r: "schedule e cfg evs s1 = Some s'"
    by (auto split: option.splits)
  from Cons.IH[OF fire_inv[OF Cons.prems(1) f] r] show ?case .
qed

text \<open>
  Claim C2. Whatever the order in which the driver reports tests and the event loop
  resumes the tasks: in every state the reporter can be in, if a summary file is on disk,
  then \<^verbatim>\<open>Promise.all\<close> has settled, every task has rendered everything it had to
  render, and the summary is the last file that was written; no summary is on disk while
  a task still has a report to render.
\<close>

theorem summary_after_all_tasks:
  assumes "schedule e cfg evs startSched = Some s"
  shows "(\<forall>w \<in> set (disk s). is_summary w \<longrightarrow>
            phase s = Rendered \<and> list_all (\<lambda>t. t = Running []) (tasks s) \<and>
            (\<exists>pre. disk s = pre @ [w] \<and> (\<forall>v \<in> set pre. \<not> is_summary v)))
       \<and> ((\<exists>t \<in> set (tasks s). t \<noteq> Running []) \<longrightarrow> (\<forall>w \<in> set (disk s). \<not> is_summary w))"
proof -
  from schedule_inv[OF barrier_inv_start assms] have inv: "barrier_inv s" .
  have a: "phase s = Rendered \<and> list_all (\<lambda>t. t = Running []) (tasks s) \<and>
            (\<exists>pre. disk s = pre @ [w] \<and> (\<forall>v \<in> set pre. \<not> is_summary v))"
    if w: "w \<in> set (disk s)" "is_summary w" for w
  proof -
    from inv w have ph: "phase s = Rendered" by (auto simp: barrier_inv_def split: if_splits)
    with inv obtain pre f where all: "list_all (\<lambda>t. t = Running []) (tasks s)"
      and d: "disk s = pre @ [SummaryReport f]" and pre: "\<forall>v \<in> set pre. \<not> is_summary v"
      by (auto simp: barrier_inv_def)
    from w d pre have "w = SummaryReport f" by auto
    with ph all d pre show ?thesis by blast
  qed
  have b: "\<forall>w \<in> set (disk s). \<not> is_summary w" if "\<exists>t \<in> set (tasks s). t \<noteq> Running []"
    using a that by (auto simp: list_all_iff)
  show ?thesis using a b by blast
qed

text \<open>Two tests whose tasks are resumed in turn around the call of \<^verbatim>\<open>onEnd\<close>: the
  summary is the fifth and last file. Settling right after \<^verbatim>\<open>onEnd\<close> is called, while
  both tasks still have a report to render, cannot happen.\<close>

theorem summary_after_all_tasks_witness:
  "\<exists>s. schedule demo_env demo_reporter demo_schedule startSched = Some s
     \<and> last (disk s) = SummaryReport ''report/summary.html'' \<and> length (disk s) = 5
     \<and> phase s = Rendered \<and> list_all (\<lambda>t. t = Running []) (tasks s)
     \<and> schedule demo_env demo_reporter (take 4 demo_schedule @ [Settle]) startSched = None"
proof -
  have ev: "case schedule demo_env demo_reporter demo_schedule startSched of
              None \<Rightarrow> False
            | Some s \<Rightarrow> last (disk s) = SummaryReport ''report/summary.html'' \<and> length (disk s) = 5"
    by code_simp
  then obtain s where s: "schedule demo_env demo_reporter demo_schedule startSched = Some s"
    and l: "last (disk s) = SummaryReport ''report/summary.html''" and n: "length (disk s) = 5"
    by (auto split: option.splits)
  from n have "disk s \<noteq> []" by auto
  with l have m: "SummaryReport ''report/summary.html'' \<in> set (disk s)"
    by (metis last_in_set)
  have "is_summary (SummaryReport ''report/summary.html'')" by (simp add: is_summary_def)
  with summary_after_all_tasks[OF s] m
  have "phase s = Rendered \<and> list_all (\<lambda>t. t = Running []) (tasks s)" by blast
  moreover have "schedule demo_env demo_reporter (take 4 demo_schedule @ [Settle]) startSched = None"
    by code_simp
  ultimately show ?thesis using s l n by blast
qed

end
